theory Spec2Isabelle
  imports Main "HOL-Library.Multiset" "HOL-Library.Product_Lexorder"
begin

section \<open>Remote version discovery of ciel (\<^verbatim>\<open>ciel/source.py\<close>)\<close>

text \<open>
  A shallow embedding of \<^verbatim>\<open>GitHubReleasesDataSource\<close> and of the data source
  registry. Text that the code only splits, compares and joins is a \<open>string\<close>; text
  that the code reads by character class is a list of Unicode code points. An exception
  is a value of type \<open>error\<close> on the left of a sum; a call that does not return is
  \<open>None\<close>.
\<close>

subsection \<open>Exceptions\<close>

text \<open>
  \<^verbatim>\<open>ValueError\<close> carries its message. \<^verbatim>\<open>HTTPStatusError\<close> and \<^verbatim>\<open>NetworkError\<close>
  are the two failures of the HTTP session that \<^verbatim>\<open>__main__.py\<close> catches around
  \<^verbatim>\<open>get_available_versions\<close>. \<^verbatim>\<open>SystemExit\<close> is what \<^verbatim>\<open>sys.exit\<close> raises.
\<close>

datatype error =
    ValueError string
  | HTTPStatusError nat
  | NetworkError
  | SystemExit int

subsection \<open>String operations of the Python runtime\<close>

text \<open>\<^verbatim>\<open>s.endswith(suffix)\<close>.\<close>

definition endswith :: "string \<Rightarrow> string \<Rightarrow> bool" where
  "endswith s suf = (length suf \<le> length s \<and> drop (length s - length suf) s = suf)"

text \<open>\<^verbatim>\<open>s.startswith(prefix)\<close>.\<close>

definition startswith :: "'a list \<Rightarrow> 'a list \<Rightarrow> bool" where
  "startswith s pre = (take (length pre) s = pre)"

text \<open>
  A Python \<^verbatim>\<open>str\<close> as the list of its code points, for the text the pattern of the
  commit date and the timestamp parser read; \<open>text_of\<close> is the text of an ASCII
  literal.
\<close>

type_synonym ustring = "nat list"

definition text_of :: "string \<Rightarrow> ustring" where
  "text_of s = map of_char s"

text \<open>
  \<^verbatim>\<open>s.rsplit(sep, maxsplit=1)\<close> for a one-character separator: the text before the
  last separator and the text after it, or the whole string alone when it holds no
  separator.
\<close>

definition rsplit1 :: "char \<Rightarrow> string \<Rightarrow> string list" where
  "rsplit1 sep s =
     (if sep \<in> set s
      then [rev (drop 1 (dropWhile (\<lambda>c. c \<noteq> sep) (rev s))), rev (takeWhile (\<lambda>c. c \<noteq> sep) (rev s))]
      else [s])"

text \<open>
  \<^verbatim>\<open>s.split(sep, maxsplit=1)\<close> for a one-character separator: the text before the
  first separator and the text after it, or the whole string alone.
\<close>

definition split1 :: "char \<Rightarrow> string \<Rightarrow> string list" where
  "split1 sep s =
     (if sep \<in> set s
      then [takeWhile (\<lambda>c. c \<noteq> sep) s, drop 1 (dropWhile (\<lambda>c. c \<noteq> sep) s)]
      else [s])"

subsection \<open>Data\<close>

text \<open>
  A timestamp is the tuple (year, month, day, hour, minute, second), compared
  lexicographically, as Python compares \<^verbatim>\<open>datetime\<close> values.
\<close>

type_synonym datetime = "nat \<times> nat \<times> nat \<times> nat \<times> nat \<times> nat"

text \<open>The dataclass \<^verbatim>\<open>Asset\<close>.\<close>

record asset =
  content :: string
  filename :: string
  url :: string

text \<open>
  Modelled from the spec: the class \<^verbatim>\<open>Version\<close> of \<^verbatim>\<open>ciel/common.py\<close>, with the
  attributes the spec lists and the constructor call of \<^verbatim>\<open>get_available_versions\<close>
  names.
\<close>

record version =
  name :: string
  pdk :: string
  commit_date :: "datetime option"
  upload_date :: datetime
  prerelease :: bool

text \<open>
  The JSON objects of the release feed, with the keys the code reads: an asset
  (\<^verbatim>\<open>"name"\<close>, \<^verbatim>\<open>"browser_download_url"\<close>) and a release (\<^verbatim>\<open>"draft"\<close>,
  \<^verbatim>\<open>"tag_name"\<close>, \<^verbatim>\<open>"published_at"\<close>, \<^verbatim>\<open>"body"\<close>, \<^verbatim>\<open>"prerelease"\<close>,
  \<^verbatim>\<open>"assets"\<close>). Every key is present and holds a value of the type the code uses it
  at; the publication time and the body are texts.
\<close>

record asset_json =
  asset_name :: string
  browser_download_url :: string

record release =
  draft :: bool
  tag_name :: string
  published_at :: ustring
  body :: ustring
  release_prerelease :: bool
  assets :: "asset_json list"

text \<open>
  Modelled from the spec: \<^verbatim>\<open>RepoInfo\<close> of \<^verbatim>\<open>ciel/github.py\<close>, a repository
  identifier (owner and name) parsed from a combined \<^verbatim>\<open>"owner/repo"\<close> string;
  \<open>repo_id\<close> is its \<^verbatim>\<open>id\<close>. A string with no \<^verbatim>\<open>/\<close> is not such an identifier.
\<close>

record repo_info =
  owner :: string
  repo_name :: string

definition repo_id :: "repo_info \<Rightarrow> string" where
  "repo_id r = owner r @ ''/'' @ repo_name r"

definition from_id :: "string \<Rightarrow> error + repo_info" where
  "from_id s =
     (case split1 CHR ''/'' s of
        [a, b] \<Rightarrow> Inr \<lparr>owner = a, repo_name = b\<rparr>
      | _ \<Rightarrow> Inl (ValueError s))"

text \<open>
  The HTTP session, \<^verbatim>\<open>GitHubSession.api(repo, path, method, params)\<close>, as the two
  functions the code uses it at: \<open>api_list\<close> answers with a list of releases and takes
  the \<^verbatim>\<open>params\<close> dictionary, \<open>api_object\<close> answers with one release. A failed
  request raises.
\<close>

type_synonym params = "(string \<times> nat) list"

record github_session =
  api_list :: "repo_info \<Rightarrow> string \<Rightarrow> string \<Rightarrow> params \<Rightarrow> error + release list"
  api_object :: "repo_info \<Rightarrow> string \<Rightarrow> string \<Rightarrow> error + release"

text \<open>The state of a \<^verbatim>\<open>GitHubReleasesDataSource\<close>.\<close>

record github_releases_data_source =
  session :: github_session
  repo :: repo_info

text \<open>
  \<^verbatim>\<open>GitHubReleasesDataSource.__init__\<close>; \<open>new_session\<close> is what \<^verbatim>\<open>GitHubSession()\<close>
  returns.
\<close>

definition GitHubReleasesDataSource :: "github_session \<Rightarrow> string \<Rightarrow> error + github_releases_data_source" where
  "GitHubReleasesDataSource new_session repo_id' =
     (case from_id repo_id' of
        Inl e \<Rightarrow> Inl e
      | Inr r \<Rightarrow> Inr \<lparr>session = new_session, repo = r\<rparr>)"

subsection \<open>\<^verbatim>\<open>get_downloads_for_version\<close>\<close>

text \<open>The loop over \<^verbatim>\<open>assets\<close>, with \<^verbatim>\<open>zst_files\<close> as the accumulator.\<close>

fun zst_loop :: "asset_json list \<Rightarrow> asset list \<Rightarrow> asset list" where
  "zst_loop [] zst_files = zst_files"
| "zst_loop (a # as) zst_files =
     (if endswith (asset_name a) ''.tar.zst''
      then zst_loop as
             (zst_files @
              [\<lparr>content = take (length (asset_name a) - 8) (asset_name a),
                filename = asset_name a,
                url = browser_download_url a\<rparr>])
      else zst_loop as zst_files)"

definition get_downloads_for_version :: "github_releases_data_source \<Rightarrow> version \<Rightarrow> error + asset list" where
  "get_downloads_for_version self v =
     (case api_object (session self) (repo self) (''/releases/tags/'' @ pdk v @ ''-'' @ name v) ''get'' of
        Inl e \<Rightarrow> Inl e
      | Inr release \<Rightarrow> Inr (zst_loop (assets release) []))"

subsection \<open>\<^verbatim>\<open>get_available_versions\<close>: paging through the feed\<close>

text \<open>
  Lines 56 to 72. The \<^verbatim>\<open>while\<close> loop may run forever, so it is a partial function:
  \<open>None\<close> is a call that does not return. Beside \<^verbatim>\<open>page\<close>, \<^verbatim>\<open>last\<close> and
  \<^verbatim>\<open>releases\<close> the model carries \<open>reqs\<close>, the \<^verbatim>\<open>params\<close> of every request
  answered so far, in order; the code has no such variable. The request inside the loop
  passes the literal \<^verbatim>\<open>{"page": 1, "per_page": 100}\<close>, as the source does.
\<close>

partial_function (option) fetch_loop ::
  "github_session \<Rightarrow> repo_info \<Rightarrow> nat \<Rightarrow> release list \<Rightarrow> release list \<Rightarrow> params list
     \<Rightarrow> (error + params list \<times> release list) option" where
  "fetch_loop s r page last_page releases reqs =
     (if length last_page = 100
      then (case api_list s r ''/releases'' ''get'' [(''page'', 1), (''per_page'', 100)] of
              Inl e \<Rightarrow> Some (Inl e)
            | Inr l \<Rightarrow>
                fetch_loop s r (page + 1) l (releases @ l)
                  (reqs @ [[(''page'', 1), (''per_page'', 100)]]))
      else Some (Inr (reqs, releases)))"

declare fetch_loop.simps [code]

definition fetch_releases ::
  "github_session \<Rightarrow> repo_info \<Rightarrow> (error + params list \<times> release list) option" where
  "fetch_releases s r =
     (case api_list s r ''/releases'' ''get'' [(''page'', 1), (''per_page'', 100)] of
        Inl e \<Rightarrow> Some (Inl e)
      | Inr l \<Rightarrow> fetch_loop s r 1 l l [[(''page'', 1), (''per_page'', 100)]])"

subsection \<open>\<^verbatim>\<open>get_available_versions\<close>: from releases to versions\<close>

text \<open>
  The character class \<^verbatim>\<open>\d\<close> of a \<^verbatim>\<open>str\<close> pattern: the decimal digits of
  Unicode (category Nd), here the table of Unicode 14.0, which CPython 3.11 carries.
  Below U+0660 they are \<^verbatim>\<open>0\<close> to \<^verbatim>\<open>9\<close>; \<open>decimal_ranges\<close> lists the others.
\<close>

definition decimal_ranges :: "(nat \<times> nat) list" where
  "decimal_ranges =
     [
      (1632, 1641), (1776, 1785), (1984, 1993), (2406, 2415), (2534, 2543),
      (2662, 2671), (2790, 2799), (2918, 2927), (3046, 3055), (3174, 3183),
      (3302, 3311), (3430, 3439), (3558, 3567), (3664, 3673), (3792, 3801),
      (3872, 3881), (4160, 4169), (4240, 4249), (6112, 6121), (6160, 6169),
      (6470, 6479), (6608, 6617), (6784, 6793), (6800, 6809), (6992, 7001),
      (7088, 7097), (7232, 7241), (7248, 7257), (42528, 42537), (43216, 43225),
      (43264, 43273), (43472, 43481), (43504, 43513), (43600, 43609), (44016, 44025),
      (65296, 65305), (66720, 66729), (68912, 68921), (69734, 69743), (69872, 69881),
      (69942, 69951), (70096, 70105), (70384, 70393), (70736, 70745), (70864, 70873),
      (71248, 71257), (71360, 71369), (71472, 71481), (71904, 71913), (72016, 72025),
      (72784, 72793), (73040, 73049), (73120, 73129), (92768, 92777), (92864, 92873),
      (93008, 93017), (120782, 120831), (123200, 123209), (123632, 123641), (125264, 125273),
      (130032, 130041)
     ]"

fun in_ranges :: "nat \<Rightarrow> (nat \<times> nat) list \<Rightarrow> bool" where
  "in_ranges c [] = False"
| "in_ranges c ((lo, hi) # rs) = (if lo \<le> c \<and> c \<le> hi then True else in_ranges c rs)"

definition unicode_decimal :: "nat \<Rightarrow> bool" where
  "unicode_decimal c =
     (if c < 1632 then 48 \<le> c \<and> c \<le> 57 else in_ranges c decimal_ranges)"

text \<open>
  The pattern \<^verbatim>\<open>released on ([\d\-\:TZ]+)\<close>: \<open>rx_class\<close> is the character class, and
  \<open>commit_rx_search\<close> is group 1 of \<^verbatim>\<open>commit_rx.search(body)\<close>: at the leftmost
  position where the literal text is followed by a character of the class, the longest
  run of such characters.
\<close>

definition rx_class :: "nat \<Rightarrow> bool" where
  "rx_class c = (unicode_decimal c \<or> c \<in> set (text_of ''-:TZ''))"

fun commit_rx_search :: "ustring \<Rightarrow> ustring option" where
  "commit_rx_search [] = None"
| "commit_rx_search (c # cs) =
     (if startswith (c # cs) (text_of ''released on '')
         \<and> takeWhile rx_class (drop 12 (c # cs)) \<noteq> []
      then Some (takeWhile rx_class (drop 12 (c # cs)))
      else commit_rx_search cs)"

text \<open>
  One pass of the \<^verbatim>\<open>for\<close> loop (lines 77 to 99): \<open>Inr None\<close> is \<^verbatim>\<open>continue\<close>,
  \<open>Inr (Some v)\<close> is the version appended, \<open>Inl\<close> is an exception. Unpacking a
  one-element list into \<^verbatim>\<open>family, hash\<close> raises \<^verbatim>\<open>ValueError\<close>.
  \<open>date_from_iso8601\<close> is the function of \<^verbatim>\<open>ciel/common.py\<close>, taken as a parameter.
\<close>

definition unpack_error :: error where
  "unpack_error = ValueError ''not enough values to unpack (expected 2, got 1)''"

definition version_of_release ::
  "(ustring \<Rightarrow> error + datetime) \<Rightarrow> string \<Rightarrow> release \<Rightarrow> error + version option" where
  "version_of_release date_from_iso8601 pdk' release =
     (if draft release then Inr None
      else (case rsplit1 CHR ''-'' (tag_name release) of
              [family, hash] \<Rightarrow>
                (if pdk' \<noteq> family then Inr None
                 else (case date_from_iso8601 (published_at release) of
                         Inl e \<Rightarrow> Inl e
                       | Inr upload_date' \<Rightarrow>
                           (case commit_rx_search (body release) of
                              None \<Rightarrow>
                                Inr (Some \<lparr>name = hash, pdk = family, commit_date = None,
                                           upload_date = upload_date',
                                           prerelease = release_prerelease release\<rparr>)
                            | Some g \<Rightarrow>
                                (case date_from_iso8601 g of
                                   Inl e \<Rightarrow> Inl e
                                 | Inr commit_date' \<Rightarrow>
                                     Inr (Some \<lparr>name = hash, pdk = family,
                                                commit_date = Some commit_date',
                                                upload_date = upload_date',
                                                prerelease = release_prerelease release\<rparr>)))))
            | _ \<Rightarrow> Inl unpack_error))"

text \<open>The \<^verbatim>\<open>for\<close> loop, with \<^verbatim>\<open>versions\<close> as the accumulator.\<close>

fun collect_versions ::
  "(ustring \<Rightarrow> error + datetime) \<Rightarrow> string \<Rightarrow> release list \<Rightarrow> version list \<Rightarrow> error + version list" where
  "collect_versions date_from_iso8601 pdk' [] versions = Inr versions"
| "collect_versions date_from_iso8601 pdk' (release # rest) versions =
     (case version_of_release date_from_iso8601 pdk' release of
        Inl e \<Rightarrow> Inl e
      | Inr None \<Rightarrow> collect_versions date_from_iso8601 pdk' rest versions
      | Inr (Some v) \<Rightarrow> collect_versions date_from_iso8601 pdk' rest (versions @ [v]))"

text \<open>
  Modelled from the spec: the order of \<^verbatim>\<open>Version\<close> (\<^verbatim>\<open>ciel/common.py\<close>), which
  compares versions by \<^verbatim>\<open>upload_date\<close>.
\<close>

definition version_lt :: "version \<Rightarrow> version \<Rightarrow> bool" where
  "version_lt a b = (upload_date a < upload_date b)"

text \<open>
  \<^verbatim>\<open>list.sort(reverse=True)\<close> with \<open>lt\<close> as \<^verbatim>\<open>__lt__\<close>: a stable sort into
  descending order, here by insertion from the left, each element placed behind the
  elements that are not less than it.
\<close>

fun insert_desc :: "('a \<Rightarrow> 'a \<Rightarrow> bool) \<Rightarrow> 'a \<Rightarrow> 'a list \<Rightarrow> 'a list" where
  "insert_desc lt x [] = [x]"
| "insert_desc lt x (y # ys) = (if lt y x then x # y # ys else y # insert_desc lt x ys)"

definition sort_reverse :: "('a \<Rightarrow> 'a \<Rightarrow> bool) \<Rightarrow> 'a list \<Rightarrow> 'a list" where
  "sort_reverse lt xs = foldl (\<lambda>acc x. insert_desc lt x acc) [] xs"

text \<open>The message of the \<^verbatim>\<open>ValueError\<close> of line 103.\<close>

definition not_found_message :: "string \<Rightarrow> repo_info \<Rightarrow> string" where
  "not_found_message pdk' r =
     ''No versions found for '' @ [CHR 0x27] @ pdk' @ [CHR 0x27] @ '' on github.com/'' @ repo_id r"

text \<open>Lines 74 to 106, from the aggregated \<^verbatim>\<open>releases\<close>.\<close>

definition versions_of_releases ::
  "(ustring \<Rightarrow> error + datetime) \<Rightarrow> repo_info \<Rightarrow> string \<Rightarrow> release list \<Rightarrow> error + version list" where
  "versions_of_releases date_from_iso8601 r pdk' releases =
     (case collect_versions date_from_iso8601 pdk' releases [] of
        Inl e \<Rightarrow> Inl e
      | Inr versions \<Rightarrow>
          (if length (sort_reverse version_lt versions) = 0
           then Inl (ValueError (not_found_message pdk' r))
           else Inr (sort_reverse version_lt versions)))"

definition get_available_versions ::
  "(ustring \<Rightarrow> error + datetime) \<Rightarrow> github_releases_data_source \<Rightarrow> string
     \<Rightarrow> (error + version list) option" where
  "get_available_versions date_from_iso8601 self pdk' =
     (case fetch_releases (session self) (repo self) of
        None \<Rightarrow> None
      | Some (Inl e) \<Rightarrow> Some (Inl e)
      | Some (Inr (reqs, releases)) \<Rightarrow>
          Some (versions_of_releases date_from_iso8601 (repo self) pdk' releases))"

subsection \<open>The registry and the default data source\<close>

text \<open>
  \<^verbatim>\<open>DataSource.factory\<close> after line 128: one entry. \<^verbatim>\<open>os.getenv(name, default)\<close>
  reads the environment, a map from names to values.
\<close>

definition factory ::
  "github_session \<Rightarrow> string \<rightharpoonup> (string \<Rightarrow> error + github_releases_data_source)" where
  "factory new_session = [''github-releases'' \<mapsto> GitHubReleasesDataSource new_session]"

definition getenv :: "(string \<rightharpoonup> string) \<Rightarrow> string \<Rightarrow> string \<Rightarrow> string" where
  "getenv env k dflt = (case env k of None \<Rightarrow> dflt | Some v \<Rightarrow> v)"

definition format_message :: string where
  "format_message =
     ''[CRITICAL] CIEL_DATA_SOURCE must be in the format '' @ [CHR 0x27]
       @ ''{class_id}:{argument}'' @ [CHR 0x27] @ ''.''"

definition unknown_class_message :: "string \<Rightarrow> string" where
  "unknown_class_message cls_id =
     ''[CRITICAL] CIEL_DATA_SOURCE defines unknown data source class '' @ [CHR 0x27]
       @ cls_id @ [CHR 0x27]"

text \<open>
  \<^verbatim>\<open>__set_data_source_default\<close>: the lines printed, and either the exception raised
  or the value assigned to \<^verbatim>\<open>DataSource.default\<close>.
\<close>

definition set_data_source_default ::
  "(string \<rightharpoonup> (string \<Rightarrow> error + 'ds)) \<Rightarrow> (string \<rightharpoonup> string) \<Rightarrow> string list \<times> (error + 'ds)" where
  "set_data_source_default fac env =
     (case split1 CHR '':'' (getenv env ''CIEL_DATA_SOURCE'' ''github-releases:efabless/volare'') of
        [cls_id, target] \<Rightarrow>
          (case fac cls_id of
             None \<Rightarrow> ([unknown_class_message cls_id], Inl (SystemExit (- 1)))
           | Some cls \<Rightarrow> ([], cls target))
      | _ \<Rightarrow> ([format_message], Inl (SystemExit (- 1))))"

subsection \<open>Inputs for the concrete cases\<close>

text \<open>
  Modelled from the spec: a simulated feed of releases served in pages. Page \<open>p\<close> of
  size \<open>n\<close> holds the releases \<open>(p - 1) * n\<close> to \<open>p * n - 1\<close>; a release is looked up
  by the path of its tag.
\<close>

definition feed_page :: "release list \<Rightarrow> params \<Rightarrow> error + release list" where
  "feed_page rs ps =
     (case (map_of ps ''page'', map_of ps ''per_page'') of
        (Some p, Some n) \<Rightarrow> Inr (take n (drop ((p - 1) * n) rs))
      | _ \<Rightarrow> Inl (HTTPStatusError 422))"

definition feed_release :: "release list \<Rightarrow> string \<Rightarrow> error + release" where
  "feed_release rs path =
     (case find (\<lambda>x. ''/releases/tags/'' @ tag_name x = path) rs of
        None \<Rightarrow> Inl (HTTPStatusError 404)
      | Some x \<Rightarrow> Inr x)"

definition simulated_feed :: "release list \<Rightarrow> github_session" where
  "simulated_feed rs =
     \<lparr>api_list = (\<lambda>r path method ps. feed_page rs ps),
      api_object = (\<lambda>r path method. feed_release rs path)\<rparr>"

definition feed_source :: "release list \<Rightarrow> github_releases_data_source" where
  "feed_source rs =
     \<lparr>session = simulated_feed rs, repo = \<lparr>owner = ''efabless'', repo_name = ''volare''\<rparr>\<rparr>"

text \<open>
  Modelled from the spec: the timestamp parsing collaborator \<^verbatim>\<open>date_from_iso8601\<close>
  of \<^verbatim>\<open>ciel/common.py\<close>, which converts an ISO-8601 string to a comparable
  timestamp. It reads the form \<^verbatim>\<open>YYYY-MM-DDTHH:MM:SSZ\<close> of the spec's example, with
  the month in 1 to 12, the day in 1 to 31, the hour below 24 and minute and second
  below 60, and raises \<^verbatim>\<open>ValueError\<close> on any other text.
\<close>

definition digit_of :: "nat \<Rightarrow> nat option" where
  "digit_of c = (if 48 \<le> c \<and> c \<le> 57 then Some (c - 48) else None)"

fun number_of :: "ustring \<Rightarrow> nat \<Rightarrow> nat option" where
  "number_of [] acc = Some acc"
| "number_of (c # cs) acc =
     (case digit_of c of None \<Rightarrow> None | Some d \<Rightarrow> number_of cs (10 * acc + d))"

definition format_error :: error where
  "format_error = ValueError ''time data does not match the format''"

definition strict_iso8601 :: "ustring \<Rightarrow> error + datetime" where
  "strict_iso8601 s =
     (if length s = 20 \<and> s ! 4 = of_char CHR ''-'' \<and> s ! 7 = of_char CHR ''-''
         \<and> s ! 10 = of_char CHR ''T'' \<and> s ! 13 = of_char CHR '':''
         \<and> s ! 16 = of_char CHR '':'' \<and> s ! 19 = of_char CHR ''Z''
      then (case (number_of (take 4 s) 0, number_of (take 2 (drop 5 s)) 0,
                  number_of (take 2 (drop 8 s)) 0, number_of (take 2 (drop 11 s)) 0,
                  number_of (take 2 (drop 14 s)) 0, number_of (take 2 (drop 17 s)) 0) of
              (Some y, Some m, Some d, Some h, Some mi, Some se) \<Rightarrow>
                (if 1 \<le> m \<and> m \<le> 12 \<and> 1 \<le> d \<and> d \<le> 31 \<and> h < 24 \<and> mi < 60 \<and> se < 60
                 then Inr (y, m, d, h, mi, se)
                 else Inl format_error)
            | _ \<Rightarrow> Inl format_error)
      else Inl format_error)"

text \<open>A published release with the given tag, publication time and body, all ASCII.\<close>

definition release_of :: "string \<Rightarrow> string \<Rightarrow> string \<Rightarrow> release" where
  "release_of tag published text =
     \<lparr>draft = False, tag_name = tag, published_at = text_of published, body = text_of text,
      release_prerelease = False, assets = []\<rparr>"

text \<open>The assets of the spec's example, on the one release of a feed, and its version.\<close>

definition example_assets :: "asset_json list" where
  "example_assets =
     [\<lparr>asset_name = ''a.tar.zst'', browser_download_url = ''https://example.org/a.tar.zst''\<rparr>,
      \<lparr>asset_name = ''a.tar.zst.sha256'', browser_download_url = ''https://example.org/a.tar.zst.sha256''\<rparr>,
      \<lparr>asset_name = ''readme.md'', browser_download_url = ''https://example.org/readme.md''\<rparr>]"

definition example_version :: version where
  "example_version =
     \<lparr>name = ''ef0123'', pdk = ''sky130'', commit_date = None,
      upload_date = (2021, 1, 1, 0, 0, 0), prerelease = False\<rparr>"

definition assets_feed :: "release list" where
  "assets_feed =
     [(release_of ''sky130-ef0123'' ''2021-01-01T00:00:00Z'' [])\<lparr>assets := example_assets\<rparr>]"

text \<open>A feed of 150 releases: one full page and a half.\<close>

definition long_feed :: "release list" where
  "long_feed = replicate 150 (release_of ''sky130-ef0123'' ''2021-01-01T00:00:00Z'' [])"

text \<open>
  The feeds of the spec's examples: three tags of which one has the family
  \<^verbatim>\<open>sky130\<close>, three publication dates out of order, and a draft ahead of a
  published release. \<open>first_request\<close> is the log of a call that asked for one page.
\<close>

definition family_feed :: "release list" where
  "family_feed =
     [release_of ''skyN-abcd123'' ''2021-01-01T00:00:00Z'' [],
      release_of ''sky130-ef0123'' ''2021-01-01T00:00:00Z'' [],
      release_of ''sky130-extra-9999'' ''2021-01-01T00:00:00Z'' []]"

definition dates_feed :: "release list" where
  "dates_feed =
     [release_of ''sky130-aaaa'' ''2021-01-01T00:00:00Z'' [],
      release_of ''sky130-bbbb'' ''2023-06-15T00:00:00Z'' [],
      release_of ''sky130-cccc'' ''2022-03-10T00:00:00Z'' []]"

definition draft_feed :: "release list" where
  "draft_feed =
     [(release_of ''sky130-dddd'' ''2024-01-01T00:00:00Z'' [])\<lparr>draft := True\<rparr>,
      release_of ''sky130-ef0123'' ''2021-01-01T00:00:00Z'' []]"

definition first_request :: "params list" where
  "first_request = [[(''page'', 1), (''per_page'', 100)]]"

text \<open>A feed with a published release whose tag holds no \<^verbatim>\<open>-\<close>.\<close>

definition malformed_feed :: "release list" where
  "malformed_feed =
     [release_of ''sky130-ef0123'' ''2021-01-01T00:00:00Z'' [],
      release_of ''v1.0'' ''2022-01-01T00:00:00Z'' []]"

text \<open>An environment that sets \<^verbatim>\<open>CIEL_DATA_SOURCE\<close> and nothing else.\<close>

definition env_of :: "string \<Rightarrow> (string \<rightharpoonup> string)" where
  "env_of v = [''CIEL_DATA_SOURCE'' \<mapsto> v]"

text \<open>
  Release bodies: one with the annotation of the spec's example, one with two
  annotations, the later of which is that of the spec's example, and one whose
  annotation names month 13.
\<close>

definition commit_feed :: "release list" where
  "commit_feed =
     [release_of ''sky130-ef0123'' ''2022-05-02T08:30:00Z''
        ''Built from open_pdks, released on 2022-05-01T12:00:00Z by the CI.'']"

definition commit_version :: version where
  "commit_version =
     \<lparr>name = ''ef0123'', pdk = ''sky130'', commit_date = Some (2022, 5, 1, 12, 0, 0),
      upload_date = (2022, 5, 2, 8, 30, 0), prerelease = False\<rparr>"

definition two_annotations_feed :: "release list" where
  "two_annotations_feed =
     [release_of ''sky130-ef0123'' ''2022-05-02T08:30:00Z''
        ''Built and released on 2021-01-01T00:00:00Z, rebuilt and released on 2022-05-01T12:00:00Z'']"

definition two_annotations_version :: version where
  "two_annotations_version =
     \<lparr>name = ''ef0123'', pdk = ''sky130'', commit_date = Some (2021, 1, 1, 0, 0, 0),
      upload_date = (2022, 5, 2, 8, 30, 0), prerelease = False\<rparr>"

definition bad_commit_feed :: "release list" where
  "bad_commit_feed =
     [release_of ''sky130-ef0123'' ''2022-05-02T08:30:00Z'' ''released on 2022-13-45T12:00:00Z'']"

subsection \<open>What the spec says of a tag\<close>

text \<open>
  The spec's reading of a tag \<^verbatim>\<open><family>-<hash>\<close>, divided at the last \<^verbatim>\<open>-\<close>:
  \<open>tag_has_family fam t\<close> holds when \<open>t\<close> is \<open>fam\<close>, then \<^verbatim>\<open>-\<close>, then a hash that holds
  no \<^verbatim>\<open>-\<close>. \<open>version_tag\<close> is the composite tag \<^verbatim>\<open><pdk>-<name>\<close> of a version.
\<close>

definition tag_has_family :: "string \<Rightarrow> string \<Rightarrow> bool" where
  "tag_has_family fam t =
     (length fam < length t \<and> take (length fam) t = fam \<and> t ! length fam = CHR ''-''
      \<and> CHR ''-'' \<notin> set (drop (Suc (length fam)) t))"

definition version_tag :: "version \<Rightarrow> string" where
  "version_tag v = pdk v @ ''-'' @ name v"

subsection \<open>Releases on which nothing raises\<close>

text \<open>
  The condition under which one pass of the loop raises nothing on a release, stated on
  the release: it is a draft, or its tag holds a \<^verbatim>\<open>-\<close> and, when it is of the
  requested family, the timestamp parser accepts its publication time and, if the
  pattern of the commit date matches in its body, the matched text.
\<close>

definition well_formed_release :: "(ustring \<Rightarrow> error + datetime) \<Rightarrow> string \<Rightarrow> release \<Rightarrow> bool" where
  "well_formed_release date_from_iso8601 fam r =
     (if draft r then True
      else if CHR ''-'' \<notin> set (tag_name r) then False
      else if tag_has_family fam (tag_name r)
      then \<not> isl (date_from_iso8601 (published_at r))
           \<and> (case commit_rx_search (body r) of
                 None \<Rightarrow> True
               | Some g \<Rightarrow> \<not> isl (date_from_iso8601 g))
      else True)"

section \<open>Properties\<close>

subsection \<open>Strings\<close>

lemma endswith_iff: "endswith s suf \<longleftrightarrow> (\<exists>p. s = p @ suf)"
proof
  assume "endswith s suf"
  then have "s = take (length s - length suf) s @ suf"
    unfolding endswith_def by (metis append_take_drop_id)
  then show "\<exists>p. s = p @ suf" ..
next
  assume "\<exists>p. s = p @ suf"
  then show "endswith s suf"
    unfolding endswith_def by auto
qed

lemma endswith_strip: "endswith s suf \<Longrightarrow> take (length s - length suf) s @ suf = s"
  unfolding endswith_def by (metis append_take_drop_id)

lemma rsplit1_no_sep: "sep \<notin> set s \<Longrightarrow> rsplit1 sep s = [s]"
  by (simp add: rsplit1_def)

lemma rsplit1_sep: "sep \<notin> set b \<Longrightarrow> rsplit1 sep (a @ sep # b) = [a, b]"
proof -
  assume b: "sep \<notin> set b"
  have r: "rev (a @ sep # b) = rev b @ sep # rev a" by simp
  from b have t: "takeWhile (\<lambda>c. c \<noteq> sep) (rev b @ sep # rev a) = rev b"
    by (subst takeWhile_append2) auto
  from b have d: "dropWhile (\<lambda>c. c \<noteq> sep) (rev b @ sep # rev a) = sep # rev a"
    by (subst dropWhile_append2) auto
  show ?thesis unfolding rsplit1_def r t d by simp
qed

lemma rsplit1_pair: "rsplit1 sep s = [a, b] \<longleftrightarrow> s = a @ sep # b \<and> sep \<notin> set b"
proof
  assume h: "rsplit1 sep s = [a, b]"
  then have m: "sep \<in> set s" by (auto simp: rsplit1_def split: if_splits)
  from h m have a: "a = rev (drop 1 (dropWhile (\<lambda>c. c \<noteq> sep) (rev s)))"
    and b: "b = rev (takeWhile (\<lambda>c. c \<noteq> sep) (rev s))"
    by (simp_all add: rsplit1_def)
  from m have ne: "dropWhile (\<lambda>c. c \<noteq> sep) (rev s) \<noteq> []" by auto
  obtain t where t: "dropWhile (\<lambda>c. c \<noteq> sep) (rev s) = sep # t"
  proof (cases "dropWhile (\<lambda>c. c \<noteq> sep) (rev s)")
    case Nil
    with ne show ?thesis by simp
  next
    case (Cons x t)
    from hd_dropWhile[OF ne] Cons have "x = sep" by simp
    with Cons that show ?thesis by simp
  qed
  have "rev s = takeWhile (\<lambda>c. c \<noteq> sep) (rev s) @ dropWhile (\<lambda>c. c \<noteq> sep) (rev s)" by simp
  then have "rev s = rev b @ sep # rev a" using a b t by simp
  then have "rev (rev s) = rev (rev b @ sep # rev a)" by simp
  then have "s = a @ sep # b" by simp
  moreover have "sep \<notin> set b" unfolding b by (auto dest: set_takeWhileD)
  ultimately show "s = a @ sep # b \<and> sep \<notin> set b" ..
next
  assume "s = a @ sep # b \<and> sep \<notin> set b"
  then show "rsplit1 sep s = [a, b]" by (simp add: rsplit1_sep)
qed

lemma rsplit1_shape: "rsplit1 sep s = [s] \<and> sep \<notin> set s \<or> (\<exists>a b. rsplit1 sep s = [a, b])"
  by (simp add: rsplit1_def)

lemma split1_sep: "sep \<notin> set a \<Longrightarrow> split1 sep (a @ sep # b) = [a, b]"
proof -
  assume a: "sep \<notin> set a"
  from a have t: "takeWhile (\<lambda>c. c \<noteq> sep) (a @ sep # b) = a"
    by (subst takeWhile_append2) auto
  from a have d: "dropWhile (\<lambda>c. c \<noteq> sep) (a @ sep # b) = sep # b"
    by (subst dropWhile_append2) auto
  show ?thesis unfolding split1_def t d by simp
qed

lemma split1_no_sep: "sep \<notin> set s \<Longrightarrow> split1 sep s = [s]"
  by (simp add: split1_def)

subsection \<open>The loop over the assets\<close>

lemma zst_loop_eq:
  "zst_loop as acc = acc @ map (\<lambda>a. \<lparr>content = take (length (asset_name a) - 8) (asset_name a),
        filename = asset_name a, url = browser_download_url a\<rparr>)
      (filter (\<lambda>a. endswith (asset_name a) ''.tar.zst'') as)"
  by (induction as arbitrary: acc) simp_all

subsection \<open>Paging\<close>

lemma fetch_loop_returns_short:
  assumes "fetch_loop s r page last_page releases reqs = Some y"
  shows "length last_page = 100 \<longrightarrow>
         (\<forall>l. api_list s r ''/releases'' ''get'' [(''page'', 1), (''per_page'', 100)] = Inr l
              \<longrightarrow> length l \<noteq> 100)"
proof (rule fetch_loop.raw_induct
    [where P = "\<lambda>s r page last_page releases reqs y. length last_page = 100 \<longrightarrow>
         (\<forall>l. api_list s r ''/releases'' ''get'' [(''page'', 1), (''per_page'', 100)] = Inr l
              \<longrightarrow> length l \<noteq> 100)", OF _ assms])
  fix f s r page last_page releases reqs y
  assume IH: "\<And>s r page last_page releases reqs y.
      f s r page last_page releases reqs = Some y \<Longrightarrow>
      length last_page = 100 \<longrightarrow>
         (\<forall>l. api_list s r ''/releases'' ''get'' [(''page'', 1), (''per_page'', 100)] = Inr l
              \<longrightarrow> length l \<noteq> 100)"
    and body: "(if length last_page = 100
      then (case api_list s r ''/releases'' ''get'' [(''page'', 1), (''per_page'', 100)] of
              Inl e \<Rightarrow> Some (Inl e)
            | Inr l \<Rightarrow>
                f s r (page + 1) l (releases @ l)
                  (reqs @ [[(''page'', 1), (''per_page'', 100)]]))
      else Some (Inr (reqs, releases))) = Some y"
  show "length last_page = 100 \<longrightarrow>
         (\<forall>l. api_list s r ''/releases'' ''get'' [(''page'', 1), (''per_page'', 100)] = Inr l
              \<longrightarrow> length l \<noteq> 100)"
  proof (intro impI allI)
    fix l
    assume full: "length last_page = 100"
      and l: "api_list s r ''/releases'' ''get'' [(''page'', 1), (''per_page'', 100)] = Inr l"
    from body full l
    have "f s r (page + 1) l (releases @ l) (reqs @ [[(''page'', 1), (''per_page'', 100)]]) = Some y"
      by simp
    from IH[OF this] l show "length l \<noteq> 100"
      by blast
  qed
qed

lemma fetch_loop_diverges:
  assumes "api_list s r ''/releases'' ''get'' [(''page'', 1), (''per_page'', 100)] = Inr l"
    and "length l = 100" and "length last_page = 100"
  shows "fetch_loop s r page last_page releases reqs = None"
proof (cases "fetch_loop s r page last_page releases reqs")
  case None
  then show ?thesis .
next
  case (Some y)
  from fetch_loop_returns_short[OF Some] assms show ?thesis
    by blast
qed

lemma fetch_loop_short:
  "length last_page \<noteq> 100 \<Longrightarrow> fetch_loop s r page last_page releases reqs = Some (Inr (reqs, releases))"
  by (subst fetch_loop.simps) simp

subsection \<open>Tags\<close>

lemma tag_has_family_iff:
  "tag_has_family fam t \<longleftrightarrow> (\<exists>h. t = fam @ CHR ''-'' # h \<and> CHR ''-'' \<notin> set h)"
proof
  assume h: "tag_has_family fam t"
  then have l: "length fam < length t" and f: "take (length fam) t = fam"
    and c: "t ! length fam = CHR ''-''" and n: "CHR ''-'' \<notin> set (drop (Suc (length fam)) t)"
    by (simp_all add: tag_has_family_def)
  have "t = take (length fam) t @ drop (length fam) t" by simp
  also from l c have "drop (length fam) t = CHR ''-'' # drop (Suc (length fam)) t"
    by (simp add: Cons_nth_drop_Suc[symmetric])
  finally have "t = fam @ CHR ''-'' # drop (Suc (length fam)) t" using f by simp
  with n show "\<exists>h. t = fam @ CHR ''-'' # h \<and> CHR ''-'' \<notin> set h" by blast
next
  assume "\<exists>h. t = fam @ CHR ''-'' # h \<and> CHR ''-'' \<notin> set h"
  then show "tag_has_family fam t"
    by (auto simp: tag_has_family_def)
qed

lemma tag_has_family_rsplit1:
  "tag_has_family fam t \<longleftrightarrow> (\<exists>h. rsplit1 CHR ''-'' t = [fam, h])"
  by (simp add: tag_has_family_iff rsplit1_pair)

subsection \<open>One release\<close>

lemma version_of_release_draft:
  "draft r \<Longrightarrow> version_of_release parse_date fam r = Inr None"
  by (simp add: version_of_release_def)

lemma version_of_release_no_sep:
  "\<not> draft r \<Longrightarrow> CHR ''-'' \<notin> set (tag_name r)
     \<Longrightarrow> version_of_release parse_date fam r = Inl unpack_error"
  by (simp add: version_of_release_def rsplit1_no_sep)

lemma version_of_release_Some:
  assumes "version_of_release parse_date fam r = Inr (Some v)"
  shows "\<not> draft r" and "tag_name r = fam @ CHR ''-'' # name v" and "CHR ''-'' \<notin> set (name v)"
    and "pdk v = fam" and "parse_date (published_at r) = Inr (upload_date v)"
    and "prerelease v = release_prerelease r"
    and "commit_rx_search (body r) = None \<Longrightarrow> commit_date v = None"
    and "commit_rx_search (body r) = Some g \<Longrightarrow> \<exists>d. parse_date g = Inr d \<and> commit_date v = Some d"
proof -
  from assms show nd: "\<not> draft r"
    by (auto simp: version_of_release_def split: if_splits)
  from rsplit1_shape[of "CHR ''-''" "tag_name r"] assms nd
  obtain a b where ab: "rsplit1 CHR ''-'' (tag_name r) = [a, b]"
    by (auto simp: version_of_release_def)
  from assms nd ab have fa: "fam = a"
    by (auto simp: version_of_release_def split: if_splits)
  from assms nd ab fa obtain u where u: "parse_date (published_at r) = Inr u"
    by (cases "parse_date (published_at r)") (auto simp: version_of_release_def)
  from assms nd ab fa u have nm: "name v = b" and pv: "pdk v = a" and up: "upload_date v = u"
    and pr: "prerelease v = release_prerelease r"
    by (auto simp: version_of_release_def split: option.splits sum.splits)
  from ab have "tag_name r = a @ CHR ''-'' # b" and "CHR ''-'' \<notin> set b"
    by (simp_all add: rsplit1_pair)
  with nm fa show "tag_name r = fam @ CHR ''-'' # name v" and "CHR ''-'' \<notin> set (name v)"
    by simp_all
  from pv fa show "pdk v = fam" by simp
  from u up show "parse_date (published_at r) = Inr (upload_date v)" by simp
  from pr show "prerelease v = release_prerelease r" .
  from assms nd ab fa u show "commit_rx_search (body r) = None \<Longrightarrow> commit_date v = None"
    by (auto simp: version_of_release_def)
  from assms nd ab fa u
  show "commit_rx_search (body r) = Some g \<Longrightarrow> \<exists>d. parse_date g = Inr d \<and> commit_date v = Some d"
    by (auto simp: version_of_release_def split: sum.splits)
qed

lemma version_of_release_skip:
  assumes "version_of_release parse_date fam r = Inr None"
  shows "draft r \<or> \<not> tag_has_family fam (tag_name r)"
proof (cases "draft r")
  case True
  then show ?thesis by simp
next
  case False
  from rsplit1_shape[of "CHR ''-''" "tag_name r"] assms False
  obtain a b where ab: "rsplit1 CHR ''-'' (tag_name r) = [a, b]"
    by (auto simp: version_of_release_def unpack_error_def)
  from assms False ab have "fam \<noteq> a"
    by (auto simp: version_of_release_def split: if_splits sum.splits option.splits)
  with ab show ?thesis by (simp add: tag_has_family_rsplit1)
qed

lemma version_of_release_other_family:
  "\<not> draft r \<Longrightarrow> \<not> tag_has_family fam (tag_name r)
     \<Longrightarrow> version_of_release parse_date fam r = Inr None \<or> version_of_release parse_date fam r = Inl unpack_error"
  using rsplit1_shape[of "CHR ''-''" "tag_name r"]
  by (auto simp: version_of_release_def tag_has_family_rsplit1)

lemma version_of_release_commit_error:
  assumes "\<not> draft r" and "tag_has_family fam (tag_name r)"
    and "commit_rx_search (body r) = Some g" and "parse_date g = Inl e"
  shows "\<exists>e'. version_of_release parse_date fam r = Inl e'"
proof -
  from assms(2) obtain h where "rsplit1 CHR ''-'' (tag_name r) = [fam, h]"
    by (auto simp: tag_has_family_rsplit1)
  with assms show ?thesis
    by (cases "parse_date (published_at r)") (simp_all add: version_of_release_def)
qed

subsection \<open>The loop over the releases\<close>

lemma collect_versions_append:
  "collect_versions parse_date fam (xs @ ys) acc =
     (case collect_versions parse_date fam xs acc of
        Inl e \<Rightarrow> Inl e
      | Inr vs \<Rightarrow> collect_versions parse_date fam ys vs)"
  by (induction xs arbitrary: acc) (simp_all split: sum.splits option.splits)

lemma collect_versions_error:
  "r \<in> set rs \<Longrightarrow> version_of_release parse_date fam r = Inl e
     \<Longrightarrow> \<exists>e'. collect_versions parse_date fam rs acc = Inl e'"
  by (induction rs arbitrary: acc) (auto split: sum.splits option.splits)

lemma collect_versions_total:
  "\<forall>r\<in>set rs. \<forall>e. version_of_release parse_date fam r \<noteq> Inl e
     \<Longrightarrow> \<exists>vs. collect_versions parse_date fam rs acc = Inr vs"
  by (induction rs arbitrary: acc) (auto split: sum.splits option.splits)

lemma collect_versions_member:
  "collect_versions parse_date fam rs acc = Inr vs \<Longrightarrow> v \<in> set vs
     \<Longrightarrow> v \<in> set acc \<or> (\<exists>r\<in>set rs. version_of_release parse_date fam r = Inr (Some v))"
proof (induction rs arbitrary: acc)
  case Nil
  then show ?case by simp
next
  case (Cons r rs)
  show ?case
  proof (cases "version_of_release parse_date fam r")
    case (Inl e)
    with Cons.prems show ?thesis by simp
  next
    case (Inr ov)
    show ?thesis
    proof (cases ov)
      case None
      with Inr Cons.prems have "collect_versions parse_date fam rs acc = Inr vs" by simp
      from Cons.IH[OF this Cons.prems(2)] show ?thesis by auto
    next
      case (Some w)
      with Inr Cons.prems have "collect_versions parse_date fam rs (acc @ [w]) = Inr vs" by simp
      from Cons.IH[OF this Cons.prems(2)] Inr Some show ?thesis by auto
    qed
  qed
qed

lemma collect_versions_tags:
  "collect_versions parse_date fam rs acc = Inr vs
     \<Longrightarrow> map version_tag vs =
         map version_tag acc @
         map tag_name (filter (\<lambda>r. \<not> draft r \<and> tag_has_family fam (tag_name r)) rs)"
proof (induction rs arbitrary: acc)
  case Nil
  then show ?case by simp
next
  case (Cons r rs)
  show ?case
  proof (cases "version_of_release parse_date fam r")
    case (Inl e)
    with Cons.prems show ?thesis by simp
  next
    case (Inr ov)
    show ?thesis
    proof (cases ov)
      case None
      with Inr Cons.prems have c: "collect_versions parse_date fam rs acc = Inr vs" by simp
      from Inr None have "draft r \<or> \<not> tag_has_family fam (tag_name r)"
        by (simp add: version_of_release_skip)
      with Cons.IH[OF c] show ?thesis by auto
    next
      case (Some w)
      with Inr Cons.prems have c: "collect_versions parse_date fam rs (acc @ [w]) = Inr vs" by simp
      from Inr Some have w: "version_of_release parse_date fam r = Inr (Some w)" by simp
      from version_of_release_Some(1-4)[OF w]
      have "\<not> draft r" and "tag_has_family fam (tag_name r)" and "version_tag w = tag_name r"
        by (auto simp: tag_has_family_iff version_tag_def)
      with Cons.IH[OF c] show ?thesis by simp
    qed
  qed
qed

lemma collect_versions_drafts:
  "collect_versions parse_date fam (filter (\<lambda>r. \<not> draft r) rs) acc =
     collect_versions parse_date fam rs acc"
  by (induction rs arbitrary: acc)
     (simp_all add: version_of_release_draft split: sum.splits option.splits)

subsection \<open>Sorting\<close>

lemma mset_insert_desc: "mset (insert_desc lt x xs) = add_mset x (mset xs)"
  by (induction xs) simp_all

lemma mset_foldl_insert_desc:
  "mset (foldl (\<lambda>acc x. insert_desc lt x acc) acc xs) = mset acc + mset xs"
  by (induction xs arbitrary: acc) (simp_all add: mset_insert_desc)

lemma mset_sort_reverse: "mset (sort_reverse lt xs) = mset xs"
  by (simp add: sort_reverse_def mset_foldl_insert_desc)

lemma set_sort_reverse: "set (sort_reverse lt xs) = set xs"
  using mset_sort_reverse[of lt xs] by (metis set_mset_mset)

lemma sort_reverse_Nil: "sort_reverse lt xs = [] \<longleftrightarrow> xs = []"
  using mset_sort_reverse[of lt xs] by (metis mset_zero_iff)

lemma set_insert_desc: "set (insert_desc lt x xs) = insert x (set xs)"
  using mset_insert_desc[of lt x xs] by (metis set_mset_mset set_mset_add_mset_insert)

lemma sorted_insert_desc:
  fixes k :: "'a \<Rightarrow> 'b::linorder"
  shows "sorted_wrt (\<lambda>a b. k b \<le> k a) xs
     \<Longrightarrow> sorted_wrt (\<lambda>a b. k b \<le> k a) (insert_desc (\<lambda>a b. k a < k b) x xs)"
proof (induction xs)
  case Nil
  then show ?case by simp
next
  case (Cons y ys)
  show ?case
  proof (cases "k y < k x")
    case True
    with Cons.prems show ?thesis by (auto intro: order_trans less_imp_le)
  next
    case False
    with Cons show ?thesis by (auto simp: set_insert_desc)
  qed
qed

lemma sorted_foldl_insert_desc:
  fixes k :: "'a \<Rightarrow> 'b::linorder"
  shows "sorted_wrt (\<lambda>a b. k b \<le> k a) acc
     \<Longrightarrow> sorted_wrt (\<lambda>a b. k b \<le> k a) (foldl (\<lambda>acc x. insert_desc (\<lambda>a b. k a < k b) x acc) acc xs)"
  by (induction xs arbitrary: acc) (simp_all add: sorted_insert_desc)

lemma sorted_sort_reverse_version:
  "sorted_wrt (\<lambda>a b. upload_date b \<le> upload_date a) (sort_reverse version_lt xs)"
proof -
  have e: "version_lt = (\<lambda>a b. upload_date a < upload_date b)"
    by (intro ext) (simp add: version_lt_def)
  show ?thesis
    unfolding sort_reverse_def e by (rule sorted_foldl_insert_desc) simp
qed

subsection \<open>The whole call\<close>

lemma fetch_releases_diverges:
  assumes "api_list s r ''/releases'' ''get'' [(''page'', 1), (''per_page'', 100)] = Inr l"
    and "length l = 100"
  shows "fetch_releases s r = None"
  using assms by (simp add: fetch_releases_def fetch_loop_diverges[OF assms assms(2)])

lemma fetch_releases_feed:
  "length rs < 100 \<Longrightarrow>
     fetch_releases (simulated_feed rs) r = Some (Inr ([[(''page'', 1), (''per_page'', 100)]], rs))"
  by (simp add: fetch_releases_def simulated_feed_def feed_page_def fetch_loop_short)

lemma get_available_versions_fetched:
  "fetch_releases (session self) (repo self) = Some (Inr (reqs, rs))
     \<Longrightarrow> get_available_versions parse_date self fam = Some (versions_of_releases parse_date (repo self) fam rs)"
  by (simp add: get_available_versions_def)

lemma get_available_versions_feed:
  "length rs < 100 \<Longrightarrow>
     get_available_versions parse_date (feed_source rs) fam =
       Some (versions_of_releases parse_date (repo (feed_source rs)) fam rs)"
  by (rule get_available_versions_fetched) (simp add: feed_source_def fetch_releases_feed)

lemma versions_of_releases_Inr:
  assumes "versions_of_releases parse_date r fam rs = Inr vs"
  shows "\<exists>versions. collect_versions parse_date fam rs [] = Inr versions
            \<and> vs = sort_reverse version_lt versions \<and> vs \<noteq> []"
  using assms
  by (cases "collect_versions parse_date fam rs []")
     (auto simp: versions_of_releases_def split: if_splits)

lemma get_available_versions_Inr:
  assumes "get_available_versions parse_date self fam = Some (Inr vs)"
  shows "\<exists>reqs rs. fetch_releases (session self) (repo self) = Some (Inr (reqs, rs))
            \<and> versions_of_releases parse_date (repo self) fam rs = Inr vs"
  using assms
  by (auto simp: get_available_versions_def split: option.splits sum.splits)

section \<open>The properties the specification states\<close>

lemma endswith_tar_zst:
  assumes "endswith s ''.tar.zst''"
  shows "take (length s - 8) s @ ''.tar.zst'' = s"
proof -
  have l: "length ''.tar.zst'' = 8" by simp
  from endswith_strip[OF assms] show ?thesis unfolding l .
qed

text \<open>
  C8. \<^verbatim>\<open>get_downloads_for_version\<close> keeps exactly the assets of the release whose
  file name ends in \<^verbatim>\<open>.tar.zst\<close>, in feed order; the content of each is its file name
  without that suffix; a release with no such asset gives the empty list and no error.
\<close>

theorem downloads_keep_archives:
  assumes "api_object (session self) (repo self) (''/releases/tags/'' @ pdk v @ ''-'' @ name v) ''get''
             = Inr release"
  shows "get_downloads_for_version self v =
           Inr (map (\<lambda>a. \<lparr>content = take (length (asset_name a) - 8) (asset_name a),
                           filename = asset_name a, url = browser_download_url a\<rparr>)
                  (filter (\<lambda>a. endswith (asset_name a) ''.tar.zst'') (assets release)))
         \<and> (\<forall>ds. get_downloads_for_version self v = Inr ds \<longrightarrow>
               map filename ds = filter (\<lambda>n. endswith n ''.tar.zst'') (map asset_name (assets release))
               \<and> (\<forall>d\<in>set ds. content d @ ''.tar.zst'' = filename d))
         \<and> ((\<forall>a\<in>set (assets release). \<not> endswith (asset_name a) ''.tar.zst'')
               \<longrightarrow> get_downloads_for_version self v = Inr [])"
proof -
  let ?mk = "\<lambda>a. \<lparr>content = take (length (asset_name a) - 8) (asset_name a),
                   filename = asset_name a, url = browser_download_url a\<rparr>"
  let ?keep = "\<lambda>a. endswith (asset_name a) ''.tar.zst''"
  have eq: "get_downloads_for_version self v = Inr (map ?mk (filter ?keep (assets release)))"
    using assms by (simp add: get_downloads_for_version_def zst_loop_eq)
  have names: "map filename (map ?mk (filter ?keep (assets release)))
      = filter (\<lambda>n. endswith n ''.tar.zst'') (map asset_name (assets release))"
    by (simp add: filter_map comp_def)
  have strip: "\<forall>d\<in>set (map ?mk (filter ?keep (assets release))). content d @ ''.tar.zst'' = filename d"
    by (auto simp: endswith_tar_zst)
  have none: "(\<forall>a\<in>set (assets release). \<not> ?keep a) \<longrightarrow> filter ?keep (assets release) = []"
    by (simp add: filter_empty_conv)
  from eq names strip none show ?thesis by auto
qed

theorem downloads_keep_archives_witness:
  "api_object (session (feed_source assets_feed)) (repo (feed_source assets_feed))
      (''/releases/tags/'' @ pdk example_version @ ''-'' @ name example_version) ''get''
     = Inr (hd assets_feed)
   \<and> get_downloads_for_version (feed_source assets_feed) example_version =
       Inr [\<lparr>content = ''a'', filename = ''a.tar.zst'', url = ''https://example.org/a.tar.zst''\<rparr>]"
proof -
  have h: "api_object (session (feed_source assets_feed)) (repo (feed_source assets_feed))
      (''/releases/tags/'' @ pdk example_version @ ''-'' @ name example_version) ''get''
     = Inr (hd assets_feed)"
    by (simp add: feed_source_def simulated_feed_def feed_release_def assets_feed_def
        example_version_def release_of_def)
  have a: "assets (hd assets_feed) = example_assets"
    by (simp add: assets_feed_def release_of_def)
  from downloads_keep_archives[OF h] have
    "get_downloads_for_version (feed_source assets_feed) example_version =
           Inr (map (\<lambda>a. \<lparr>content = take (length (asset_name a) - 8) (asset_name a),
                           filename = asset_name a, url = browser_download_url a\<rparr>)
                  (filter (\<lambda>a. endswith (asset_name a) ''.tar.zst'') (assets (hd assets_feed))))"
    by blast
  then have "get_downloads_for_version (feed_source assets_feed) example_version =
       Inr [\<lparr>content = ''a'', filename = ''a.tar.zst'', url = ''https://example.org/a.tar.zst''\<rparr>]"
    unfolding a by (simp add: example_assets_def endswith_def)
  with h show ?thesis by blast
qed

text \<open>
  C1. The claim asks for one request per page and every release exactly once. The loop
  asks for page 1 again on every pass, so whenever page 1 is full (a feed of 100
  releases or more) the call never returns; with a feed of 150 releases it does not
  stop after two requests.
\<close>

theorem full_first_page_never_returns:
  assumes "api_list (session self) (repo self) ''/releases'' ''get''
             [(''page'', 1), (''per_page'', 100)] = Inr l"
    and "length l = 100"
  shows "get_available_versions parse_date self fam = None"
  using fetch_releases_diverges[OF assms] by (simp add: get_available_versions_def)

theorem full_first_page_never_returns_witness:
  "length long_feed = 150
   \<and> api_list (session (feed_source long_feed)) (repo (feed_source long_feed)) ''/releases'' ''get''
             [(''page'', 1), (''per_page'', 100)] = Inr (take 100 long_feed)
   \<and> length (take 100 long_feed) = 100
   \<and> get_available_versions strict_iso8601 (feed_source long_feed) ''sky130'' = None"
proof -
  have n: "length long_feed = 150" by (simp add: long_feed_def)
  have p: "api_list (session (feed_source long_feed)) (repo (feed_source long_feed)) ''/releases'' ''get''
             [(''page'', 1), (''per_page'', 100)] = Inr (take 100 long_feed)"
    by (simp add: feed_source_def simulated_feed_def feed_page_def)
  have l: "length (take 100 long_feed) = 100" using n by simp
  from full_first_page_never_returns[OF p l] n p l show ?thesis by blast
qed

subsection \<open>The example feeds\<close>

lemma fetch_releases_feed_source:
  "length rs < 100 \<Longrightarrow>
     fetch_releases (session (feed_source rs)) (repo (feed_source rs)) = Some (Inr (first_request, rs))"
  by (simp add: feed_source_def fetch_releases_feed first_request_def)

lemma family_feed_result:
  "get_available_versions strict_iso8601 (feed_source family_feed) ''sky130'' = Some (Inr [example_version])"
  by code_simp

lemma dates_feed_result:
  "get_available_versions strict_iso8601 (feed_source dates_feed) ''sky130'' =
     Some (Inr [\<lparr>name = ''bbbb'', pdk = ''sky130'', commit_date = None,
                  upload_date = (2023, 6, 15, 0, 0, 0), prerelease = False\<rparr>,
                \<lparr>name = ''cccc'', pdk = ''sky130'', commit_date = None,
                  upload_date = (2022, 3, 10, 0, 0, 0), prerelease = False\<rparr>,
                \<lparr>name = ''aaaa'', pdk = ''sky130'', commit_date = None,
                  upload_date = (2021, 1, 1, 0, 0, 0), prerelease = False\<rparr>])"
  by code_simp

text \<open>
  C4. Every list \<^verbatim>\<open>get_available_versions\<close> returns is in descending order of
  \<^verbatim>\<open>upload_date\<close>, the order of \<^verbatim>\<open>Version\<close>; the publication dates 2021-01-01,
  2023-06-15, 2022-03-10 come back as 2023-06-15, 2022-03-10, 2021-01-01.
\<close>

theorem newest_first:
  assumes "get_available_versions parse_date self fam = Some (Inr vs)"
  shows "sorted_wrt (\<lambda>a b. upload_date b \<le> upload_date a) vs
         \<and> sorted_wrt (\<lambda>a b. \<not> version_lt a b) vs"
proof -
  from get_available_versions_Inr[OF assms] obtain reqs rs
    where "versions_of_releases parse_date (repo self) fam rs = Inr vs" by blast
  from versions_of_releases_Inr[OF this] obtain versions
    where s: "vs = sort_reverse version_lt versions" by blast
  have a: "sorted_wrt (\<lambda>a b. upload_date b \<le> upload_date a) vs"
    unfolding s by (rule sorted_sort_reverse_version)
  have "(\<lambda>a b. \<not> version_lt a b) = (\<lambda>a b. upload_date b \<le> upload_date a)"
    by (intro ext) (simp add: version_lt_def not_less)
  with a show ?thesis by simp
qed

theorem newest_first_witness:
  "(\<exists>vs. get_available_versions strict_iso8601 (feed_source dates_feed) ''sky130'' = Some (Inr vs)
      \<and> map upload_date vs = [(2023, 6, 15, 0, 0, 0), (2022, 3, 10, 0, 0, 0), (2021, 1, 1, 0, 0, 0)]
      \<and> sorted_wrt (\<lambda>a b. upload_date b \<le> upload_date a) vs)"
  using newest_first[OF dates_feed_result] dates_feed_result by simp

lemma versions_of_releases_error:
  "collect_versions parse_date fam rs [] = Inl e \<Longrightarrow> versions_of_releases parse_date r fam rs = Inl e"
  by (simp add: versions_of_releases_def)

lemma versions_of_releases_collected:
  "collect_versions parse_date fam rs [] = Inr versions \<Longrightarrow>
     versions_of_releases parse_date r fam rs =
       (if versions = [] then Inl (ValueError (not_found_message fam r))
        else Inr (sort_reverse version_lt versions))"
  by (simp add: versions_of_releases_def sort_reverse_Nil)

text \<open>
  C3, as the spec states it: a published release whose tag holds no \<^verbatim>\<open>-\<close> is skipped
  and the call does not fail. It fails on the code: with such a release behind a
  matching one the call raises \<^verbatim>\<open>ValueError\<close>, and without it the call returns.
\<close>

theorem malformed_tag_counterexample:
  "get_available_versions strict_iso8601 (feed_source malformed_feed) ''sky130'' = Some (Inl unpack_error)
   \<and> get_available_versions strict_iso8601 (feed_source [hd malformed_feed]) ''sky130''
       = Some (Inr [example_version])"
  by code_simp

text \<open>
  C3, amended. When the pages have been fetched and the feed holds a release that is not
  a draft and whose tag holds no \<^verbatim>\<open>-\<close>, \<^verbatim>\<open>get_available_versions\<close> raises for
  every family, so the release is in no result; when no release ahead of it raises, the
  exception is the \<^verbatim>\<open>ValueError\<close> of unpacking one value into \<^verbatim>\<open>family, hash\<close>.
\<close>

theorem malformed_tag_raises:
  assumes f: "fetch_releases (session self) (repo self) = Some (Inr (reqs, rs))"
    and r: "r \<in> set rs" and nd: "\<not> draft r" and ns: "CHR ''-'' \<notin> set (tag_name r)"
  shows "(\<exists>e. get_available_versions parse_date self fam = Some (Inl e))
         \<and> ((\<forall>x\<in>set (takeWhile (\<lambda>x. x \<noteq> r) rs). \<forall>e. version_of_release parse_date fam x \<noteq> Inl e)
              \<longrightarrow> get_available_versions parse_date self fam = Some (Inl unpack_error))"
proof -
  have g: "get_available_versions parse_date self fam
             = Some (versions_of_releases parse_date (repo self) fam rs)"
    by (rule get_available_versions_fetched[OF f])
  have u: "version_of_release parse_date fam r = Inl unpack_error"
    by (rule version_of_release_no_sep[OF nd ns])
  from collect_versions_error[OF r u] obtain e
    where "collect_versions parse_date fam rs [] = Inl e" by blast
  then have a: "\<exists>e. get_available_versions parse_date self fam = Some (Inl e)"
    by (simp add: g versions_of_releases_error)
  have b: "get_available_versions parse_date self fam = Some (Inl unpack_error)"
    if ok: "\<forall>x\<in>set (takeWhile (\<lambda>x. x \<noteq> r) rs). \<forall>e. version_of_release parse_date fam x \<noteq> Inl e"
  proof -
    let ?xs = "takeWhile (\<lambda>x. x \<noteq> r) rs" and ?ys = "dropWhile (\<lambda>x. x \<noteq> r) rs"
    from r have ne: "?ys \<noteq> []" by auto
    obtain ys where ys: "?ys = r # ys"
    proof (cases ?ys)
      case Nil
      with ne show ?thesis by simp
    next
      case (Cons y ys)
      from hd_dropWhile[OF ne] Cons have "y = r" by simp
      with Cons that show ?thesis by simp
    qed
    have split: "rs = ?xs @ r # ys" using ys by (metis takeWhile_dropWhile_id)
    from collect_versions_total[OF ok] obtain vs0
      where v0: "collect_versions parse_date fam ?xs [] = Inr vs0" by blast
    have "collect_versions parse_date fam (?xs @ r # ys) [] = Inl unpack_error"
      by (simp add: collect_versions_append v0 u)
    with split have "collect_versions parse_date fam rs [] = Inl unpack_error" by simp
    then show ?thesis by (simp add: g versions_of_releases_error)
  qed
  from a b show ?thesis by blast
qed

theorem malformed_tag_raises_witness:
  "fetch_releases (session (feed_source malformed_feed)) (repo (feed_source malformed_feed))
     = Some (Inr (first_request, malformed_feed))
   \<and> malformed_feed ! 1 \<in> set malformed_feed \<and> \<not> draft (malformed_feed ! 1)
   \<and> CHR ''-'' \<notin> set (tag_name (malformed_feed ! 1))
   \<and> (\<exists>e. get_available_versions strict_iso8601 (feed_source malformed_feed) ''gf180mcu'' = Some (Inl e))"
proof -
  have f: "fetch_releases (session (feed_source malformed_feed)) (repo (feed_source malformed_feed))
     = Some (Inr (first_request, malformed_feed))"
    by (rule fetch_releases_feed_source) (simp add: malformed_feed_def)
  have r: "malformed_feed ! 1 \<in> set malformed_feed" by (simp add: malformed_feed_def)
  have nd: "\<not> draft (malformed_feed ! 1)" by (simp add: malformed_feed_def release_of_def)
  have ns: "CHR ''-'' \<notin> set (tag_name (malformed_feed ! 1))"
    by (simp add: malformed_feed_def release_of_def)
  from malformed_tag_raises[OF f r nd ns, of strict_iso8601 "''gf180mcu''"] f r nd ns
  show ?thesis by blast
qed

text \<open>
  C6. A draft contributes nothing, whatever its tag: the outcome of
  \<^verbatim>\<open>get_available_versions\<close> on the releases fetched is its outcome on the same
  releases with the drafts taken out.
\<close>

theorem drafts_never_contribute:
  assumes f: "fetch_releases (session self) (repo self) = Some (Inr (reqs, rs))"
    and f': "fetch_releases (session self') (repo self')
               = Some (Inr (reqs', filter (\<lambda>r. \<not> draft r) rs))"
    and same: "repo self' = repo self"
  shows "get_available_versions parse_date self fam = get_available_versions parse_date self' fam"
  unfolding get_available_versions_fetched[OF f] get_available_versions_fetched[OF f'] same
  by (simp add: versions_of_releases_def collect_versions_drafts)

theorem drafts_never_contribute_witness:
  "fetch_releases (session (feed_source draft_feed)) (repo (feed_source draft_feed))
     = Some (Inr (first_request, draft_feed))
   \<and> fetch_releases (session (feed_source (tl draft_feed))) (repo (feed_source (tl draft_feed)))
       = Some (Inr (first_request, filter (\<lambda>r. \<not> draft r) draft_feed))
   \<and> repo (feed_source (tl draft_feed)) = repo (feed_source draft_feed)
   \<and> draft (hd draft_feed) \<and> tag_has_family ''sky130'' (tag_name (hd draft_feed))
   \<and> get_available_versions strict_iso8601 (feed_source draft_feed) ''sky130''
       = Some (Inr [example_version])"
proof -
  have f: "fetch_releases (session (feed_source draft_feed)) (repo (feed_source draft_feed))
     = Some (Inr (first_request, draft_feed))"
    by (rule fetch_releases_feed_source) (simp add: draft_feed_def)
  have t: "filter (\<lambda>r. \<not> draft r) draft_feed = tl draft_feed"
    by (simp add: draft_feed_def release_of_def)
  have f': "fetch_releases (session (feed_source (tl draft_feed))) (repo (feed_source (tl draft_feed)))
       = Some (Inr (first_request, filter (\<lambda>r. \<not> draft r) draft_feed))"
    unfolding t by (rule fetch_releases_feed_source) (simp add: draft_feed_def)
  have same: "repo (feed_source (tl draft_feed)) = repo (feed_source draft_feed)"
    by (simp add: feed_source_def)
  have d: "draft (hd draft_feed) \<and> tag_has_family ''sky130'' (tag_name (hd draft_feed))"
    by (simp add: draft_feed_def release_of_def tag_has_family_def)
  have v: "get_available_versions strict_iso8601 (feed_source (tl draft_feed)) ''sky130''
       = Some (Inr [example_version])"
    by code_simp
  from drafts_never_contribute[OF f f' same, of strict_iso8601 "''sky130''"] v f f' same d
  show ?thesis by simp
qed

text \<open>
  C10. Every version \<open>v\<close> that \<^verbatim>\<open>get_available_versions\<close> returns was built from a
  release of the feed whose tag is \<open>pdk v\<close>, \<^verbatim>\<open>-\<close>, \<open>name v\<close>, and
  \<^verbatim>\<open>get_downloads_for_version\<close> asks for the release of exactly that tag.
\<close>

theorem tag_round_trip:
  assumes f: "fetch_releases (session self) (repo self) = Some (Inr (reqs, rs))"
    and g: "get_available_versions parse_date self fam = Some (Inr vs)"
    and v: "v \<in> set vs"
  shows "\<exists>r\<in>set rs. version_of_release parse_date fam r = Inr (Some v)
           \<and> pdk v @ ''-'' @ name v = tag_name r
           \<and> get_downloads_for_version self v =
               (case api_object (session self) (repo self) (''/releases/tags/'' @ tag_name r) ''get'' of
                  Inl e \<Rightarrow> Inl e
                | Inr release \<Rightarrow> Inr (zst_loop (assets release) []))"
proof -
  from get_available_versions_fetched[OF f, of parse_date fam] g
  have "versions_of_releases parse_date (repo self) fam rs = Inr vs" by simp
  from versions_of_releases_Inr[OF this] obtain versions
    where c: "collect_versions parse_date fam rs [] = Inr versions"
      and s: "vs = sort_reverse version_lt versions" by blast
  from v have "v \<in> set versions" by (simp add: s set_sort_reverse)
  from collect_versions_member[OF c this]
  obtain r where r: "r \<in> set rs" and w: "version_of_release parse_date fam r = Inr (Some v)" by auto
  from version_of_release_Some(2,4)[OF w]
  have t: "pdk v @ ''-'' @ name v = tag_name r" by simp
  have "get_downloads_for_version self v =
               (case api_object (session self) (repo self) (''/releases/tags/'' @ tag_name r) ''get'' of
                  Inl e \<Rightarrow> Inl e
                | Inr release \<Rightarrow> Inr (zst_loop (assets release) []))"
    unfolding get_downloads_for_version_def t ..
  with r w t show ?thesis by blast
qed

theorem tag_round_trip_witness:
  "fetch_releases (session (feed_source assets_feed)) (repo (feed_source assets_feed))
     = Some (Inr (first_request, assets_feed))
   \<and> get_available_versions strict_iso8601 (feed_source assets_feed) ''sky130''
       = Some (Inr [example_version])
   \<and> example_version \<in> set [example_version]
   \<and> version_of_release strict_iso8601 ''sky130'' (hd assets_feed) = Inr (Some example_version)
   \<and> pdk example_version @ ''-'' @ name example_version = tag_name (hd assets_feed)"
proof -
  have f: "fetch_releases (session (feed_source assets_feed)) (repo (feed_source assets_feed))
     = Some (Inr (first_request, assets_feed))"
    by (rule fetch_releases_feed_source) (simp add: assets_feed_def)
  have g: "get_available_versions strict_iso8601 (feed_source assets_feed) ''sky130''
       = Some (Inr [example_version])"
    by code_simp
  have v: "example_version \<in> set [example_version]" by simp
  have one: "set assets_feed = {hd assets_feed}" by (simp add: assets_feed_def)
  from tag_round_trip[OF f g v]
  have "version_of_release strict_iso8601 ''sky130'' (hd assets_feed) = Inr (Some example_version)
        \<and> pdk example_version @ ''-'' @ name example_version = tag_name (hd assets_feed)"
    unfolding one by blast
  with f g v show ?thesis by blast
qed

lemma from_id_efabless_volare:
  "from_id ''efabless/volare'' = Inr \<lparr>owner = ''efabless'', repo_name = ''volare''\<rparr>"
  by (simp add: from_id_def split1_def)

text \<open>
  C9, as the spec states it: exactly one separator is required, and a value with more
  is fatal. It fails on the code: \<^verbatim>\<open>github-releases:efabless/volare:main\<close> is split
  once, at the first \<^verbatim>\<open>:\<close>, and a data source is constructed; a registry whose
  constructor hands its argument back shows the argument, \<^verbatim>\<open>efabless/volare:main\<close>.
\<close>

theorem extra_separator_counterexample:
  "set_data_source_default (factory (simulated_feed [])) (env_of ''github-releases:efabless/volare:main'')
     = ([], Inr \<lparr>session = simulated_feed [],
                 repo = \<lparr>owner = ''efabless'', repo_name = ''volare:main''\<rparr>\<rparr>)
   \<and> set_data_source_default [''github-releases'' \<mapsto> Inr]
         (env_of ''github-releases:efabless/volare:main'')
     = ([], Inr ''efabless/volare:main'' :: error + string)"
  by (simp add: set_data_source_default_def env_of_def getenv_def split1_def factory_def
      GitHubReleasesDataSource_def from_id_def)

text \<open>
  C9, amended. The value is divided at its first \<^verbatim>\<open>:\<close>. With no \<^verbatim>\<open>:\<close> the
  process prints the format message and exits with status \<open>-1\<close>; with an identifier
  (the text before the first \<^verbatim>\<open>:\<close>) that the registry does not hold it prints the
  unknown-class message and exits with status \<open>-1\<close>; otherwise the registered
  constructor is applied to all the text behind the first \<^verbatim>\<open>:\<close>, further separators
  included. Unset, or set to \<^verbatim>\<open>github-releases:efabless/volare\<close>, the variable selects
  the GitHub backend of the repository \<^verbatim>\<open>efabless/volare\<close>; the registry holds
  \<^verbatim>\<open>github-releases\<close> alone.
\<close>

theorem default_data_source:
  fixes fac :: "string \<rightharpoonup> (string \<Rightarrow> error + 'ds)"
  shows "(CHR '':'' \<notin> set (getenv env ''CIEL_DATA_SOURCE'' ''github-releases:efabless/volare'')
            \<longrightarrow> set_data_source_default fac env = ([format_message], Inl (SystemExit (- 1))))
         \<and> (\<forall>cls_id target.
               getenv env ''CIEL_DATA_SOURCE'' ''github-releases:efabless/volare'' = cls_id @ '':'' @ target
               \<and> CHR '':'' \<notin> set cls_id
               \<longrightarrow> set_data_source_default fac env =
                     (case fac cls_id of
                        None \<Rightarrow> ([unknown_class_message cls_id], Inl (SystemExit (- 1)))
                      | Some cls \<Rightarrow> ([], cls target)))
         \<and> ((env ''CIEL_DATA_SOURCE'' = None \<or> env ''CIEL_DATA_SOURCE'' = Some ''github-releases:efabless/volare'')
               \<longrightarrow> set_data_source_default (factory new_session) env =
                     ([], Inr \<lparr>session = new_session,
                               repo = \<lparr>owner = ''efabless'', repo_name = ''volare''\<rparr>\<rparr>)
                   \<and> repo_id \<lparr>owner = ''efabless'', repo_name = ''volare''\<rparr> = ''efabless/volare'')
         \<and> dom (factory new_session) = {''github-releases''}
         \<and> SystemExit (- 1) \<noteq> SystemExit 0"
proof -
  let ?v = "getenv env ''CIEL_DATA_SOURCE'' ''github-releases:efabless/volare''"
  have a: "CHR '':'' \<notin> set ?v
            \<longrightarrow> set_data_source_default fac env = ([format_message], Inl (SystemExit (- 1)))"
    by (simp add: set_data_source_default_def split1_no_sep)
  have b: "set_data_source_default fac env =
                     (case fac cls_id of
                        None \<Rightarrow> ([unknown_class_message cls_id], Inl (SystemExit (- 1)))
                      | Some cls \<Rightarrow> ([], cls target))"
    if "?v = cls_id @ '':'' @ target" and "CHR '':'' \<notin> set cls_id" for cls_id target
  proof -
    from that have "split1 CHR '':'' ?v = [cls_id, target]"
      by (simp add: split1_sep)
    then show ?thesis by (simp add: set_data_source_default_def)
  qed
  have c: "set_data_source_default (factory new_session) env =
                     ([], Inr \<lparr>session = new_session,
                               repo = \<lparr>owner = ''efabless'', repo_name = ''volare''\<rparr>\<rparr>)"
    if "env ''CIEL_DATA_SOURCE'' = None \<or> env ''CIEL_DATA_SOURCE'' = Some ''github-releases:efabless/volare''"
  proof -
    from that have v: "?v = ''github-releases:efabless/volare''"
      by (auto simp: getenv_def)
    have s: "split1 CHR '':'' ''github-releases:efabless/volare'' = [''github-releases'', ''efabless/volare'']"
      by (simp add: split1_def)
    show ?thesis
      unfolding set_data_source_default_def v s
      by (simp add: factory_def GitHubReleasesDataSource_def from_id_efabless_volare)
  qed
  have d: "repo_id \<lparr>owner = ''efabless'', repo_name = ''volare''\<rparr> = ''efabless/volare''"
    by (simp add: repo_id_def)
  have e: "dom (factory new_session) = {''github-releases''}"
    by (simp add: factory_def)
  from a b c d e show ?thesis by simp
qed

theorem default_data_source_witness:
  "set_data_source_default (factory (simulated_feed [])) (env_of ''no-colon-here'')
     = ([format_message], Inl (SystemExit (- 1)))
   \<and> set_data_source_default (factory (simulated_feed [])) (env_of ''bogus:x'')
     = ([unknown_class_message ''bogus''], Inl (SystemExit (- 1)))
   \<and> set_data_source_default (factory (simulated_feed [])) Map.empty
     = ([], Inr (feed_source []))
   \<and> set_data_source_default (factory (simulated_feed [])) (env_of ''github-releases:efabless/volare'')
     = ([], Inr (feed_source []))"
proof -
  note t = default_data_source[where new_session = "simulated_feed []"]
  have n: "getenv (env_of ''no-colon-here'') ''CIEL_DATA_SOURCE'' ''github-releases:efabless/volare''
             = ''no-colon-here''"
    by (simp add: getenv_def env_of_def)
  have 1: "set_data_source_default (factory (simulated_feed [])) (env_of ''no-colon-here'')
     = ([format_message], Inl (SystemExit (- 1)))"
    using t[of "env_of ''no-colon-here''" "factory (simulated_feed [])"] unfolding n by simp
  have b: "getenv (env_of ''bogus:x'') ''CIEL_DATA_SOURCE'' ''github-releases:efabless/volare''
             = ''bogus'' @ '':'' @ ''x'' \<and> CHR '':'' \<notin> set ''bogus''"
    by (simp add: getenv_def env_of_def)
  have bn: "factory (simulated_feed []) ''bogus'' = None"
    by (simp add: factory_def)
  note t2 = t[of "env_of ''bogus:x''" "factory (simulated_feed [])", THEN conjunct2, THEN conjunct1,
      rule_format, of "''bogus''" "''x''"]
  have 2: "set_data_source_default (factory (simulated_feed [])) (env_of ''bogus:x'')
     = ([unknown_class_message ''bogus''], Inl (SystemExit (- 1)))"
    using t2[OF b] unfolding bn by simp
  have 3: "set_data_source_default (factory (simulated_feed [])) Map.empty
     = ([], Inr (feed_source []))"
    using t[of Map.empty "factory (simulated_feed [])"] by (simp add: feed_source_def)
  have 4: "set_data_source_default (factory (simulated_feed [])) (env_of ''github-releases:efabless/volare'')
     = ([], Inr (feed_source []))"
    using t[of "env_of ''github-releases:efabless/volare''" "factory (simulated_feed [])"]
    by (simp add: feed_source_def env_of_def)
  from 1 2 3 4 show ?thesis by blast
qed

subsection \<open>The pattern of the commit date\<close>

lemma length_released_on: "length (text_of ''released on '') = 12"
  by (simp add: text_of_def)

lemma startswith_released_on:
  "startswith b (text_of ''released on '') \<longleftrightarrow> b = text_of ''released on '' @ drop 12 b"
proof -
  have "startswith b (text_of ''released on '') \<longleftrightarrow> take 12 b = text_of ''released on ''"
    unfolding startswith_def length_released_on ..
  also have "\<dots> \<longleftrightarrow> b = text_of ''released on '' @ drop 12 b"
  proof
    assume "take 12 b = text_of ''released on ''"
    then show "b = text_of ''released on '' @ drop 12 b" by (metis append_take_drop_id)
  next
    assume h: "b = text_of ''released on '' @ drop 12 b"
    have t: "take 12 (text_of ''released on '' @ drop 12 b) = text_of ''released on ''"
      using length_released_on by (metis append_eq_conv_conj)
    show "take 12 b = text_of ''released on ''" by (subst h) (fact t)
  qed
  finally show ?thesis .
qed

lemma released_on_append:
  "startswith (text_of ''released on '' @ xs) (text_of ''released on '')"
  "drop 12 (text_of ''released on '' @ xs) = xs"
  using length_released_on by (simp_all add: startswith_def)

lemma commit_rx_search_here:
  assumes "startswith b (text_of ''released on '')" and "takeWhile rx_class (drop 12 b) \<noteq> []"
  shows "commit_rx_search b = Some (takeWhile rx_class (drop 12 b))"
proof (cases b)
  case Nil
  with assms(2) show ?thesis by simp
next
  case (Cons c cs)
  with assms show ?thesis by simp
qed

lemma commit_rx_search_Some:
  "commit_rx_search b = Some g \<Longrightarrow>
     \<exists>pre rest. b = pre @ text_of ''released on '' @ g @ rest \<and> g \<noteq> [] \<and> (\<forall>c\<in>set g. rx_class c)
        \<and> (rest = [] \<or> \<not> rx_class (hd rest))
        \<and> (\<forall>pre' c rest'. b = pre' @ text_of ''released on '' @ c # rest' \<and> rx_class c
              \<longrightarrow> length pre \<le> length pre')"
proof (induction b)
  case Nil
  then show ?case by simp
next
  case (Cons c cs)
  let ?b = "c # cs"
  show ?case
  proof (cases "startswith ?b (text_of ''released on '') \<and> takeWhile rx_class (drop 12 ?b) \<noteq> []")
    case True
    with Cons.prems have g: "g = takeWhile rx_class (drop 12 ?b)" by simp
    from True have b1: "?b = text_of ''released on '' @ drop 12 ?b"
      by (simp only: startswith_released_on)
    have d: "drop 12 ?b = g @ dropWhile rx_class (drop 12 ?b)" by (simp add: g)
    have e: "?b = [] @ text_of ''released on '' @ g @ dropWhile rx_class (drop 12 ?b)"
      by (metis b1 d append_Nil)
    from True g have ne: "g \<noteq> []" by simp
    have cl: "\<forall>c\<in>set g. rx_class c" unfolding g by (auto dest: set_takeWhileD)
    have tl: "dropWhile rx_class (drop 12 ?b) = [] \<or> \<not> rx_class (hd (dropWhile rx_class (drop 12 ?b)))"
      using hd_dropWhile[of rx_class "drop 12 ?b"] by blast
    have mn: "\<forall>pre' c' rest'. ?b = pre' @ text_of ''released on '' @ c' # rest' \<and> rx_class c'
              \<longrightarrow> length ([]::nat list) \<le> length pre'" by simp
    from e ne cl tl mn show ?thesis by blast
  next
    case False
    with Cons.prems have "commit_rx_search cs = Some g" by auto
    from Cons.IH[OF this] obtain pre rest
      where cs: "cs = pre @ text_of ''released on '' @ g @ rest" and r: "g \<noteq> []" "\<forall>c\<in>set g. rx_class c"
        "rest = [] \<or> \<not> rx_class (hd rest)"
        and mn: "\<forall>pre' c rest'. cs = pre' @ text_of ''released on '' @ c # rest' \<and> rx_class c
              \<longrightarrow> length pre \<le> length pre'" by blast
    from cs have b: "?b = (c # pre) @ text_of ''released on '' @ g @ rest" by simp
    have "length (c # pre) \<le> length pre'"
      if d: "?b = pre' @ text_of ''released on '' @ c' # rest'" and k: "rx_class c'" for pre' c' rest'
    proof (cases pre')
      case Nil
      with d have "?b = text_of ''released on '' @ c' # rest'" by simp
      then have "startswith ?b (text_of ''released on '')" and "drop 12 ?b = c' # rest'"
        using released_on_append[of "c' # rest'"] by simp_all
      with k False show ?thesis by simp
    next
      case (Cons x pre'')
      with d have "cs = pre'' @ text_of ''released on '' @ c' # rest'" by simp
      with mn k have "length pre \<le> length pre''" by blast
      with Cons show ?thesis by simp
    qed
    with b r show ?thesis by blast
  qed
qed

lemma commit_rx_search_found:
  "rx_class c \<Longrightarrow> commit_rx_search (pre @ text_of ''released on '' @ c # rest) \<noteq> None"
proof (induction pre)
  case Nil
  from released_on_append[of "c # rest"] Nil
  have "commit_rx_search (text_of ''released on '' @ c # rest) = Some (takeWhile rx_class (c # rest))"
    using commit_rx_search_here[of "text_of ''released on '' @ c # rest"] by simp
  then show ?case by simp
next
  case (Cons x pre)
  then show ?case by simp
qed

lemma commit_rx_search_None:
  "commit_rx_search b = None \<longleftrightarrow>
     (\<forall>pre c rest. b = pre @ text_of ''released on '' @ c # rest \<longrightarrow> \<not> rx_class c)"
proof
  assume "commit_rx_search b = None"
  then show "\<forall>pre c rest. b = pre @ text_of ''released on '' @ c # rest \<longrightarrow> \<not> rx_class c"
    using commit_rx_search_found by blast
next
  assume h: "\<forall>pre c rest. b = pre @ text_of ''released on '' @ c # rest \<longrightarrow> \<not> rx_class c"
  show "commit_rx_search b = None"
  proof (cases "commit_rx_search b")
    case None
    then show ?thesis .
  next
    case (Some g)
    from commit_rx_search_Some[OF Some] obtain pre rest
      where b: "b = pre @ text_of ''released on '' @ g @ rest" and ne: "g \<noteq> []"
        and cl: "\<forall>c\<in>set g. rx_class c"
      by blast
    from ne obtain c g' where g: "g = c # g'" by (cases g) auto
    with b have "b = pre @ text_of ''released on '' @ c # (g' @ rest)" by simp
    with h have "\<not> rx_class c" by blast
    with cl g show ?thesis by simp
  qed
qed

subsection \<open>Feeds on which nothing raises\<close>

lemma version_of_release_raises:
  "(\<exists>e. version_of_release parse_date fam r = Inl e) \<longleftrightarrow> \<not> well_formed_release parse_date fam r"
proof (cases "draft r")
  case True
  then show ?thesis by (simp add: version_of_release_def well_formed_release_def)
next
  case nd: False
  show ?thesis
  proof (cases "CHR ''-'' \<in> set (tag_name r)")
    case False
    with nd show ?thesis
      by (simp add: version_of_release_no_sep well_formed_release_def)
  next
    case sep: True
    with rsplit1_shape[of "CHR ''-''" "tag_name r"]
    obtain a b where ab: "rsplit1 CHR ''-'' (tag_name r) = [a, b]" by blast
    show ?thesis
    proof (cases "tag_has_family fam (tag_name r)")
      case False
      with ab have "fam \<noteq> a" by (auto simp: tag_has_family_rsplit1)
      with nd sep ab False show ?thesis
        by (simp add: version_of_release_def well_formed_release_def)
    next
      case True
      with ab have "fam = a" by (auto simp: tag_has_family_rsplit1)
      with nd sep ab True show ?thesis
        by (auto simp: version_of_release_def well_formed_release_def
            split: sum.splits option.splits)
    qed
  qed
qed

lemma well_formed_release_total:
  "\<forall>r\<in>set rs. well_formed_release parse_date fam r
     \<Longrightarrow> \<forall>r\<in>set rs. \<forall>e. version_of_release parse_date fam r \<noteq> Inl e"
  using version_of_release_raises by blast

lemma version_of_release_commit_raises:
  assumes "\<not> draft r" and "tag_has_family fam (tag_name r)"
    and "parse_date (published_at r) = Inr u"
    and "commit_rx_search (body r) = Some g" and "parse_date g = Inl e"
  shows "version_of_release parse_date fam r = Inl e"
proof -
  from assms(2) obtain h where "rsplit1 CHR ''-'' (tag_name r) = [fam, h]"
    by (auto simp: tag_has_family_rsplit1)
  with assms show ?thesis by (simp add: version_of_release_def)
qed

lemma collect_versions_first_error:
  assumes r: "r \<in> set rs"
    and ok: "\<forall>x\<in>set (takeWhile (\<lambda>x. x \<noteq> r) rs). \<forall>e. version_of_release parse_date fam x \<noteq> Inl e"
    and u: "version_of_release parse_date fam r = Inl e"
  shows "collect_versions parse_date fam rs [] = Inl e"
proof -
  let ?xs = "takeWhile (\<lambda>x. x \<noteq> r) rs" and ?ys = "dropWhile (\<lambda>x. x \<noteq> r) rs"
  from r have ne: "?ys \<noteq> []" by auto
  obtain ys where ys: "?ys = r # ys"
  proof (cases ?ys)
    case Nil
    with ne show ?thesis by simp
  next
    case (Cons y ys)
    from hd_dropWhile[OF ne] Cons have "y = r" by simp
    with Cons that show ?thesis by simp
  qed
  have split: "rs = ?xs @ r # ys" using ys by (metis takeWhile_dropWhile_id)
  from collect_versions_total[OF ok] obtain vs0
    where v0: "collect_versions parse_date fam ?xs [] = Inr vs0" by blast
  have "collect_versions parse_date fam (?xs @ r # ys) [] = Inl e"
    by (simp add: collect_versions_append v0 u)
  with split show ?thesis by simp
qed

lemma collect_versions_pairs:
  "collect_versions parse_date fam rs acc = Inr vs \<Longrightarrow>
     \<exists>ws. vs = acc @ ws
        \<and> list_all2 (\<lambda>r v. version_of_release parse_date fam r = Inr (Some v))
             (filter (\<lambda>r. \<not> draft r \<and> tag_has_family fam (tag_name r)) rs) ws"
proof (induction rs arbitrary: acc)
  case Nil
  then show ?case by simp
next
  case (Cons r rs)
  show ?case
  proof (cases "version_of_release parse_date fam r")
    case (Inl e)
    with Cons.prems show ?thesis by simp
  next
    case (Inr ov)
    show ?thesis
    proof (cases ov)
      case None
      with Inr Cons.prems have c: "collect_versions parse_date fam rs acc = Inr vs" by simp
      from Inr None have "draft r \<or> \<not> tag_has_family fam (tag_name r)"
        by (simp add: version_of_release_skip)
      with Cons.IH[OF c] show ?thesis by auto
    next
      case (Some w)
      with Inr Cons.prems have c: "collect_versions parse_date fam rs (acc @ [w]) = Inr vs" by simp
      from Inr Some have w: "version_of_release parse_date fam r = Inr (Some w)" by simp
      from version_of_release_Some(1-3)[OF w]
      have m: "\<not> draft r \<and> tag_has_family fam (tag_name r)"
        by (auto simp: tag_has_family_iff)
      from Cons.IH[OF c] obtain ws where ws: "vs = (acc @ [w]) @ ws"
        and p: "list_all2 (\<lambda>r v. version_of_release parse_date fam r = Inr (Some v))
             (filter (\<lambda>r. \<not> draft r \<and> tag_has_family fam (tag_name r)) rs) ws" by blast
      from ws have "vs = acc @ (w # ws)" by simp
      moreover from m w p
      have "list_all2 (\<lambda>r v. version_of_release parse_date fam r = Inr (Some v))
             (filter (\<lambda>r. \<not> draft r \<and> tag_has_family fam (tag_name r)) (r # rs)) (w # ws)"
        by simp
      ultimately show ?thesis by blast
    qed
  qed
qed

lemma fetch_releases_short_page:
  "api_list s r ''/releases'' ''get'' [(''page'', 1), (''per_page'', 100)] = Inr rs
     \<Longrightarrow> length rs \<noteq> 100
     \<Longrightarrow> fetch_releases s r = Some (Inr ([[(''page'', 1), (''per_page'', 100)]], rs))"
  by (simp add: fetch_releases_def fetch_loop_short)

lemma get_available_versions_short_page:
  "api_list (session self) (repo self) ''/releases'' ''get'' [(''page'', 1), (''per_page'', 100)] = Inr rs
     \<Longrightarrow> length rs \<noteq> 100
     \<Longrightarrow> get_available_versions parse_date self fam
           = Some (versions_of_releases parse_date (repo self) fam rs)"
  by (rule get_available_versions_fetched) (rule fetch_releases_short_page)

lemma feed_source_page:
  "api_list (session (feed_source rs)) (repo (feed_source rs)) ''/releases'' ''get''
     [(''page'', 1), (''per_page'', 100)] = Inr (take 100 rs)"
  by (simp add: feed_source_def simulated_feed_def feed_page_def)

lemma malformed_feed_sky130:
  "get_available_versions strict_iso8601 (feed_source malformed_feed) ''sky130'' = Some (Inl unpack_error)"
  by code_simp

text \<open>
  C2, as the spec states it: for every feed the call returns a version for each
  published release of the requested family. It fails on the code: in a feed that also
  holds a published release whose tag has no \<^verbatim>\<open>-\<close>, the release
  \<^verbatim>\<open>sky130-ef0123\<close> is of the family \<^verbatim>\<open>sky130\<close> and the call raises, returning
  no version.
\<close>

theorem matching_release_lost_counterexample:
  "\<not> draft (hd malformed_feed)
   \<and> tag_has_family ''sky130'' (tag_name (hd malformed_feed))
   \<and> get_available_versions strict_iso8601 (feed_source malformed_feed) ''sky130''
       = Some (Inl unpack_error)"
  using malformed_feed_sky130
  by (simp add: malformed_feed_def release_of_def tag_has_family_def)

text \<open>
  C2, amended. When the first page is not full and nothing raises on any release,
  \<^verbatim>\<open>get_available_versions\<close> returns one version for each release that is not a
  draft and whose tag, divided at the last \<^verbatim>\<open>-\<close>, has the requested family, and no
  other version: the composite tags of the result are the tags of those releases; when
  there is no such release it raises the not-found error. With the tags
  \<^verbatim>\<open>skyN-abcd123\<close>, \<^verbatim>\<open>sky130-ef0123\<close> and \<^verbatim>\<open>sky130-extra-9999\<close> and the family
  \<^verbatim>\<open>sky130\<close> only the second is returned.
\<close>

theorem family_filtering:
  assumes page: "api_list (session self) (repo self) ''/releases'' ''get''
                   [(''page'', 1), (''per_page'', 100)] = Inr rs"
    and short: "length rs \<noteq> 100"
    and wf: "\<forall>r\<in>set rs. well_formed_release parse_date fam r"
  shows "(filter (\<lambda>r. \<not> draft r \<and> tag_has_family fam (tag_name r)) rs = [] \<longrightarrow>
            get_available_versions parse_date self fam
              = Some (Inl (ValueError (not_found_message fam (repo self)))))
         \<and> (filter (\<lambda>r. \<not> draft r \<and> tag_has_family fam (tag_name r)) rs \<noteq> [] \<longrightarrow>
              (\<exists>vs. get_available_versions parse_date self fam = Some (Inr vs)
                 \<and> mset (map version_tag vs) =
                     mset (map tag_name (filter (\<lambda>r. \<not> draft r \<and> tag_has_family fam (tag_name r)) rs))
                 \<and> (\<forall>v\<in>set vs. pdk v = fam)))
         \<and> (\<forall>t. tag_has_family fam t \<longleftrightarrow> (\<exists>h. t = fam @ ''-'' @ h \<and> CHR ''-'' \<notin> set h))"
proof -
  let ?M = "filter (\<lambda>r. \<not> draft r \<and> tag_has_family fam (tag_name r)) rs"
  have g: "get_available_versions parse_date self fam
             = Some (versions_of_releases parse_date (repo self) fam rs)"
    by (rule get_available_versions_short_page[OF page short])
  from collect_versions_total[OF well_formed_release_total[OF wf]] obtain versions
    where c: "collect_versions parse_date fam rs [] = Inr versions" by blast
  from collect_versions_tags[OF c]
  have tags: "map version_tag versions = map tag_name ?M" by simp
  then have "length versions = length ?M" by (metis length_map)
  then have e: "versions = [] \<longleftrightarrow> ?M = []" by (metis length_0_conv)
  have a: "?M = [] \<longrightarrow> get_available_versions parse_date self fam
              = Some (Inl (ValueError (not_found_message fam (repo self))))"
    unfolding g versions_of_releases_collected[OF c] e[symmetric] by simp
  have b: "\<exists>vs. get_available_versions parse_date self fam = Some (Inr vs)
                 \<and> mset (map version_tag vs) = mset (map tag_name ?M)
                 \<and> (\<forall>v\<in>set vs. pdk v = fam)" if ne: "?M \<noteq> []"
  proof -
    let ?vs = "sort_reverse version_lt versions"
    from ne e have "versions \<noteq> []" by simp
    then have r: "get_available_versions parse_date self fam = Some (Inr ?vs)"
      unfolding g versions_of_releases_collected[OF c] by simp
    have "mset (map version_tag ?vs) = image_mset version_tag (mset ?vs)" by simp
    also have "\<dots> = image_mset version_tag (mset versions)" by (simp add: mset_sort_reverse)
    also have "\<dots> = mset (map version_tag versions)" by simp
    finally have m: "mset (map version_tag ?vs) = mset (map tag_name ?M)" using tags by simp
    have f: "\<forall>v\<in>set ?vs. pdk v = fam"
    proof
      fix v assume "v \<in> set ?vs"
      then have "v \<in> set versions" by (simp add: set_sort_reverse)
      from collect_versions_member[OF c this]
      obtain r where "version_of_release parse_date fam r = Inr (Some v)" by auto
      then show "pdk v = fam" by (rule version_of_release_Some(4))
    qed
    from r m f show ?thesis by blast
  qed
  have t: "\<forall>t. tag_has_family fam t \<longleftrightarrow> (\<exists>h. t = fam @ ''-'' @ h \<and> CHR ''-'' \<notin> set h)"
    by (simp add: tag_has_family_iff)
  from a b t show ?thesis by blast
qed

theorem family_filtering_witness:
  "api_list (session (feed_source family_feed)) (repo (feed_source family_feed)) ''/releases'' ''get''
     [(''page'', 1), (''per_page'', 100)] = Inr family_feed
   \<and> length family_feed \<noteq> 100
   \<and> list_all (well_formed_release strict_iso8601 ''sky130'') family_feed
   \<and> map tag_name (filter (\<lambda>r. \<not> draft r \<and> tag_has_family ''sky130'' (tag_name r)) family_feed)
       = [''sky130-ef0123'']
   \<and> get_available_versions strict_iso8601 (feed_source family_feed) ''sky130''
       = Some (Inr [example_version])
   \<and> mset (map version_tag [example_version]) = {#''sky130-ef0123''#}"
proof -
  have l: "length family_feed \<noteq> 100" by (simp add: family_feed_def)
  have p: "api_list (session (feed_source family_feed)) (repo (feed_source family_feed)) ''/releases'' ''get''
     [(''page'', 1), (''per_page'', 100)] = Inr family_feed"
    unfolding feed_source_page by (simp add: family_feed_def)
  have w: "list_all (well_formed_release strict_iso8601 ''sky130'') family_feed"
    by code_simp
  then have wf: "\<forall>r\<in>set family_feed. well_formed_release strict_iso8601 ''sky130'' r"
    by (simp add: list_all_iff)
  have m: "map tag_name (filter (\<lambda>r. \<not> draft r \<and> tag_has_family ''sky130'' (tag_name r)) family_feed)
       = [''sky130-ef0123'']"
    by (simp add: family_feed_def release_of_def tag_has_family_def)
  then have ne: "filter (\<lambda>r. \<not> draft r \<and> tag_has_family ''sky130'' (tag_name r)) family_feed \<noteq> []"
    by auto
  from family_filtering[OF p l wf, THEN conjunct2, THEN conjunct1, rule_format, OF ne]
  obtain vs where "get_available_versions strict_iso8601 (feed_source family_feed) ''sky130'' = Some (Inr vs)"
    and "mset (map version_tag vs) = mset [''sky130-ef0123'']" unfolding m by blast
  with family_feed_result have "mset (map version_tag [example_version]) = {#''sky130-ef0123''#}"
    by simp
  with p l w m family_feed_result show ?thesis by blast
qed

lemma malformed_feed_gf180mcu:
  "get_available_versions strict_iso8601 (feed_source malformed_feed) ''gf180mcu'' = Some (Inl unpack_error)"
  by code_simp

text \<open>
  C5, as the spec states it: the not-found error is raised exactly when no release is
  both published and of the requested family. It fails on the code: no release of the
  feed is of the family \<^verbatim>\<open>gf180mcu\<close>, and the error raised is that of unpacking the
  tag \<^verbatim>\<open>v1.0\<close>, which names neither the family nor the repository.
\<close>

theorem empty_filter_other_error_counterexample:
  "length malformed_feed = 2
   \<and> \<not> tag_has_family ''gf180mcu'' (tag_name (malformed_feed ! 0))
   \<and> \<not> tag_has_family ''gf180mcu'' (tag_name (malformed_feed ! 1))
   \<and> get_available_versions strict_iso8601 (feed_source malformed_feed) ''gf180mcu''
       = Some (Inl unpack_error)
   \<and> unpack_error \<noteq> ValueError (not_found_message ''gf180mcu'' (repo (feed_source malformed_feed)))"
  using malformed_feed_gf180mcu
  by (simp add: malformed_feed_def release_of_def tag_has_family_def unpack_error_def
      not_found_message_def)

text \<open>
  C5, amended. When the first page is not full and nothing raises on any release,
  \<^verbatim>\<open>get_available_versions\<close> raises the \<^verbatim>\<open>ValueError\<close> whose message names the
  family and the repository exactly when no release is both published and of the
  requested family; on no feed does it return the empty list.
\<close>

theorem not_found_iff_empty:
  "(api_list (session self) (repo self) ''/releases'' ''get'' [(''page'', 1), (''per_page'', 100)] = Inr rs
      \<and> length rs \<noteq> 100 \<and> (\<forall>r\<in>set rs. well_formed_release parse_date fam r)
    \<longrightarrow> (get_available_versions parse_date self fam
            = Some (Inl (ValueError (not_found_message fam (repo self))))
          \<longleftrightarrow> filter (\<lambda>r. \<not> draft r \<and> tag_has_family fam (tag_name r)) rs = []))
   \<and> get_available_versions parse_date self fam \<noteq> Some (Inr [])
   \<and> not_found_message fam (repo self)
       = ''No versions found for '' @ [CHR 0x27] @ fam @ [CHR 0x27] @ '' on github.com/''
           @ repo_id (repo self)"
proof -
  let ?M = "filter (\<lambda>r. \<not> draft r \<and> tag_has_family fam (tag_name r)) rs"
  have a: "get_available_versions parse_date self fam
            = Some (Inl (ValueError (not_found_message fam (repo self)))) \<longleftrightarrow> ?M = []"
    if page: "api_list (session self) (repo self) ''/releases'' ''get''
                [(''page'', 1), (''per_page'', 100)] = Inr rs"
      and short: "length rs \<noteq> 100"
      and wf: "\<forall>r\<in>set rs. well_formed_release parse_date fam r"
  proof -
    have g: "get_available_versions parse_date self fam
               = Some (versions_of_releases parse_date (repo self) fam rs)"
      by (rule get_available_versions_short_page[OF page short])
    from collect_versions_total[OF well_formed_release_total[OF wf]] obtain versions
      where c: "collect_versions parse_date fam rs [] = Inr versions" by blast
    from collect_versions_tags[OF c]
    have "map version_tag versions = map tag_name ?M" by simp
    then have "length versions = length ?M" by (metis length_map)
    then have e: "versions = [] \<longleftrightarrow> ?M = []" by (metis length_0_conv)
    show ?thesis
      unfolding g versions_of_releases_collected[OF c] e[symmetric] by simp
  qed
  have b: "get_available_versions parse_date self fam \<noteq> Some (Inr [])"
  proof
    assume "get_available_versions parse_date self fam = Some (Inr [])"
    from get_available_versions_Inr[OF this] obtain reqs rs'
      where "versions_of_releases parse_date (repo self) fam rs' = Inr []" by blast
    from versions_of_releases_Inr[OF this] show False by blast
  qed
  from a b show ?thesis by (simp add: not_found_message_def)
qed

theorem not_found_iff_empty_witness:
  "api_list (session (feed_source family_feed)) (repo (feed_source family_feed)) ''/releases'' ''get''
     [(''page'', 1), (''per_page'', 100)] = Inr family_feed
   \<and> length family_feed \<noteq> 100
   \<and> list_all (well_formed_release strict_iso8601 ''gf180mcu'') family_feed
   \<and> filter (\<lambda>r. \<not> draft r \<and> tag_has_family ''gf180mcu'' (tag_name r)) family_feed = []
   \<and> get_available_versions strict_iso8601 (feed_source family_feed) ''gf180mcu''
       = Some (Inl (ValueError (''No versions found for '' @ [CHR 0x27] @ ''gf180mcu'' @ [CHR 0x27]
                                  @ '' on github.com/efabless/volare'')))"
proof -
  have l: "length family_feed \<noteq> 100" by (simp add: family_feed_def)
  have p: "api_list (session (feed_source family_feed)) (repo (feed_source family_feed)) ''/releases'' ''get''
     [(''page'', 1), (''per_page'', 100)] = Inr family_feed"
    unfolding feed_source_page by (simp add: family_feed_def)
  have w: "list_all (well_formed_release strict_iso8601 ''gf180mcu'') family_feed"
    by code_simp
  then have wf: "\<forall>r\<in>set family_feed. well_formed_release strict_iso8601 ''gf180mcu'' r"
    by (simp add: list_all_iff)
  have m: "filter (\<lambda>r. \<not> draft r \<and> tag_has_family ''gf180mcu'' (tag_name r)) family_feed = []"
    by (simp add: family_feed_def release_of_def tag_has_family_def)
  have i: "repo_id (repo (feed_source family_feed)) = ''efabless/volare''"
    by (simp add: feed_source_def repo_id_def)
  note t = not_found_iff_empty[of "feed_source family_feed" family_feed strict_iso8601 "''gf180mcu''"]
  from t p l wf m
  have "get_available_versions strict_iso8601 (feed_source family_feed) ''gf180mcu''
       = Some (Inl (ValueError (not_found_message ''gf180mcu'' (repo (feed_source family_feed)))))"
    by blast
  moreover from t i have "not_found_message ''gf180mcu'' (repo (feed_source family_feed))
       = ''No versions found for '' @ [CHR 0x27] @ ''gf180mcu'' @ [CHR 0x27]
           @ '' on github.com/efabless/volare''"
    by simp
  ultimately show ?thesis using p l w m by simp
qed

lemma two_annotations_result:
  "get_available_versions strict_iso8601 (feed_source two_annotations_feed) ''sky130''
     = Some (Inr [two_annotations_version])"
  by code_simp

lemma bad_commit_result:
  "get_available_versions strict_iso8601 (feed_source bad_commit_feed) ''sky130''
     = Some (Inl format_error)"
  by code_simp

text \<open>
  C7, as the spec states it: a body that contains
  \<^verbatim>\<open>released on 2022-05-01T12:00:00Z\<close> yields that timestamp, and an annotation that
  cannot be parsed leaves \<^verbatim>\<open>commit_date\<close> unset and raises nothing. It fails on the
  code: of two annotations the first is taken, so a body that contains the one of the
  spec yields 2021-01-01; and the pattern matches \<^verbatim>\<open>2022-13-45T12:00:00Z\<close>, which
  goes to the timestamp parser with no handler around it, so that a parser which raises
  on it makes the call raise.
\<close>

theorem commit_date_counterexample:
  "drop 56 (body (hd two_annotations_feed)) = text_of ''released on 2022-05-01T12:00:00Z''
   \<and> strict_iso8601 (text_of ''2022-05-01T12:00:00Z'') = Inr (2022, 5, 1, 12, 0, 0)
   \<and> get_available_versions strict_iso8601 (feed_source two_annotations_feed) ''sky130''
       = Some (Inr [two_annotations_version])
   \<and> commit_date two_annotations_version = Some (2021, 1, 1, 0, 0, 0)
   \<and> commit_rx_search (body (hd bad_commit_feed)) = Some (text_of ''2022-13-45T12:00:00Z'')
   \<and> get_available_versions strict_iso8601 (feed_source bad_commit_feed) ''sky130''
       = Some (Inl format_error)"
proof -
  have 1: "drop 56 (body (hd two_annotations_feed)) = text_of ''released on 2022-05-01T12:00:00Z''"
    by code_simp
  have 2: "strict_iso8601 (text_of ''2022-05-01T12:00:00Z'') = Inr (2022, 5, 1, 12, 0, 0)"
    by code_simp
  have 3: "commit_date two_annotations_version = Some (2021, 1, 1, 0, 0, 0)"
    by (simp add: two_annotations_version_def)
  have 4: "commit_rx_search (body (hd bad_commit_feed)) = Some (text_of ''2022-13-45T12:00:00Z'')"
    by code_simp
  from 1 2 3 4 two_annotations_result bad_commit_result show ?thesis by blast
qed

text \<open>
  C7, amended. Let the first page be not full. When nothing raises on any release and
  some release is published and of the requested family, the call returns, and the
  version built from each such release has \<^verbatim>\<open>commit_date\<close> unset when its body has no
  place where \<^verbatim>\<open>released on \<close> is followed by a character of \<^verbatim>\<open>[\d\-\:TZ]\<close>, and
  otherwise the timestamp parsed from the longest run of such characters at the first
  such place. When the parser rejects that run for a published release of the family
  whose publication time it accepts, and nothing raises on the releases ahead of it, the
  call raises the parser's error.
\<close>

theorem commit_date_from_body:
  assumes page: "api_list (session self) (repo self) ''/releases'' ''get''
                   [(''page'', 1), (''per_page'', 100)] = Inr rs"
    and short: "length rs \<noteq> 100"
  shows "((\<forall>r\<in>set rs. well_formed_release parse_date fam r)
            \<and> filter (\<lambda>r. \<not> draft r \<and> tag_has_family fam (tag_name r)) rs \<noteq> []
          \<longrightarrow> (\<exists>versions.
                get_available_versions parse_date self fam
                  = Some (Inr (sort_reverse version_lt versions))
                \<and> list_all2
                    (\<lambda>r v. version_tag v = tag_name r
                       \<and> (commit_rx_search (body r) = None \<and> commit_date v = None
                          \<or> (\<exists>g d. commit_rx_search (body r) = Some g \<and> parse_date g = Inr d
                                \<and> commit_date v = Some d)))
                    (filter (\<lambda>r. \<not> draft r \<and> tag_has_family fam (tag_name r)) rs) versions))
         \<and> (\<forall>b. (commit_rx_search b = None \<longleftrightarrow>
                   (\<forall>pre c rest. b = pre @ text_of ''released on '' @ c # rest \<longrightarrow> \<not> rx_class c))
                \<and> (\<forall>g. commit_rx_search b = Some g \<longrightarrow>
                      (\<exists>pre rest. b = pre @ text_of ''released on '' @ g @ rest \<and> g \<noteq> []
                         \<and> (\<forall>c\<in>set g. rx_class c) \<and> (rest = [] \<or> \<not> rx_class (hd rest))
                         \<and> (\<forall>pre' c rest'. b = pre' @ text_of ''released on '' @ c # rest'
                                \<and> rx_class c \<longrightarrow> length pre \<le> length pre'))))
         \<and> (\<forall>r g e u. r \<in> set rs
                \<and> (\<forall>x\<in>set (takeWhile (\<lambda>x. x \<noteq> r) rs). well_formed_release parse_date fam x)
                \<and> \<not> draft r \<and> tag_has_family fam (tag_name r)
                \<and> parse_date (published_at r) = Inr u
                \<and> commit_rx_search (body r) = Some g \<and> parse_date g = Inl e
              \<longrightarrow> get_available_versions parse_date self fam = Some (Inl e))"
proof -
  let ?M = "filter (\<lambda>r. \<not> draft r \<and> tag_has_family fam (tag_name r)) rs"
  let ?Q = "\<lambda>r v. version_tag v = tag_name r
                       \<and> (commit_rx_search (body r) = None \<and> commit_date v = None
                          \<or> (\<exists>g d. commit_rx_search (body r) = Some g \<and> parse_date g = Inr d
                                \<and> commit_date v = Some d))"
  have gav: "get_available_versions parse_date self fam
             = Some (versions_of_releases parse_date (repo self) fam rs)"
    by (rule get_available_versions_short_page[OF page short])
  have a: "\<exists>versions. get_available_versions parse_date self fam
                  = Some (Inr (sort_reverse version_lt versions))
                \<and> list_all2 ?Q ?M versions"
    if wf: "\<forall>r\<in>set rs. well_formed_release parse_date fam r" and ne: "?M \<noteq> []"
  proof -
    from collect_versions_total[OF well_formed_release_total[OF wf]] obtain versions
      where c: "collect_versions parse_date fam rs [] = Inr versions" by blast
    from collect_versions_pairs[OF c]
    have p: "list_all2 (\<lambda>r v. version_of_release parse_date fam r = Inr (Some v)) ?M versions"
      by simp
    have q: "?Q r v" if w: "version_of_release parse_date fam r = Inr (Some v)" for r v
    proof -
      from version_of_release_Some(2,4)[OF w]
      have t: "version_tag v = tag_name r" by (simp add: version_tag_def)
      show ?thesis
      proof (cases "commit_rx_search (body r)")
        case None
        with version_of_release_Some(7)[OF w None] t show ?thesis by simp
      next
        case (Some g)
        with version_of_release_Some(8)[OF w Some] t show ?thesis by simp
      qed
    qed
    from p q have l: "list_all2 ?Q ?M versions"
      by (rule list_all2_mono)
    from l ne have "versions \<noteq> []" by auto
    then have "get_available_versions parse_date self fam
                 = Some (Inr (sort_reverse version_lt versions))"
      unfolding gav versions_of_releases_collected[OF c] by simp
    with l show ?thesis by blast
  qed
  have b: "\<forall>b. (commit_rx_search b = None \<longleftrightarrow>
                   (\<forall>pre c rest. b = pre @ text_of ''released on '' @ c # rest \<longrightarrow> \<not> rx_class c))
                \<and> (\<forall>g. commit_rx_search b = Some g \<longrightarrow>
                      (\<exists>pre rest. b = pre @ text_of ''released on '' @ g @ rest \<and> g \<noteq> []
                         \<and> (\<forall>c\<in>set g. rx_class c) \<and> (rest = [] \<or> \<not> rx_class (hd rest))
                         \<and> (\<forall>pre' c rest'. b = pre' @ text_of ''released on '' @ c # rest'
                                \<and> rx_class c \<longrightarrow> length pre \<le> length pre')))"
    using commit_rx_search_None commit_rx_search_Some by blast
  have c: "get_available_versions parse_date self fam = Some (Inl e)"
    if "r \<in> set rs"
      and "\<forall>x\<in>set (takeWhile (\<lambda>x. x \<noteq> r) rs). well_formed_release parse_date fam x"
      and "\<not> draft r" and "tag_has_family fam (tag_name r)"
      and "parse_date (published_at r) = Inr u"
      and "commit_rx_search (body r) = Some g" and "parse_date g = Inl e" for r g e u
  proof -
    have "version_of_release parse_date fam r = Inl e"
      by (rule version_of_release_commit_raises[OF that(3-7)])
    from collect_versions_first_error[OF that(1) well_formed_release_total[OF that(2)] this]
    show ?thesis by (simp add: gav versions_of_releases_error)
  qed
  from a b c show ?thesis by blast
qed

theorem commit_date_from_body_witness:
  "api_list (session (feed_source commit_feed)) (repo (feed_source commit_feed)) ''/releases'' ''get''
     [(''page'', 1), (''per_page'', 100)] = Inr commit_feed
   \<and> length commit_feed \<noteq> 100
   \<and> list_all (well_formed_release strict_iso8601 ''sky130'') commit_feed
   \<and> commit_rx_search (body (hd commit_feed)) = Some (text_of ''2022-05-01T12:00:00Z'')
   \<and> get_available_versions strict_iso8601 (feed_source commit_feed) ''sky130''
       = Some (Inr [commit_version])
   \<and> commit_date commit_version = Some (2022, 5, 1, 12, 0, 0)
   \<and> commit_rx_search (body (hd family_feed)) = None
   \<and> get_available_versions strict_iso8601 (feed_source family_feed) ''sky130''
       = Some (Inr [example_version])
   \<and> commit_date example_version = None
   \<and> commit_rx_search (text_of ''released on '' @ [1635]) = Some [1635]
   \<and> get_available_versions strict_iso8601 (feed_source bad_commit_feed) ''sky130''
       = Some (Inl format_error)"
proof -
  have l: "length commit_feed \<noteq> 100" by (simp add: commit_feed_def)
  have p: "api_list (session (feed_source commit_feed)) (repo (feed_source commit_feed)) ''/releases'' ''get''
     [(''page'', 1), (''per_page'', 100)] = Inr commit_feed"
    unfolding feed_source_page by (simp add: commit_feed_def)
  have w: "list_all (well_formed_release strict_iso8601 ''sky130'') commit_feed"
    by code_simp
  have s: "commit_rx_search (body (hd commit_feed)) = Some (text_of ''2022-05-01T12:00:00Z'')"
    by code_simp
  have g: "get_available_versions strict_iso8601 (feed_source commit_feed) ''sky130''
       = Some (Inr [commit_version])"
    by code_simp
  have c: "commit_date commit_version = Some (2022, 5, 1, 12, 0, 0)"
    by (simp add: commit_version_def)
  have n: "commit_rx_search (body (hd family_feed)) = None" by code_simp
  have e: "commit_date example_version = None" by (simp add: example_version_def)
  have a: "commit_rx_search (text_of ''released on '' @ [1635]) = Some [1635]"
    by (simp add: text_of_def startswith_def rx_class_def unicode_decimal_def decimal_ranges_def)
  have bl: "length bad_commit_feed \<noteq> 100" by (simp add: bad_commit_feed_def)
  have bp: "api_list (session (feed_source bad_commit_feed)) (repo (feed_source bad_commit_feed))
      ''/releases'' ''get'' [(''page'', 1), (''per_page'', 100)] = Inr bad_commit_feed"
    unfolding feed_source_page by (simp add: bad_commit_feed_def)
  have b1: "hd bad_commit_feed \<in> set bad_commit_feed" by (simp add: bad_commit_feed_def)
  have b2: "\<forall>x\<in>set (takeWhile (\<lambda>x. x \<noteq> hd bad_commit_feed) bad_commit_feed).
              well_formed_release strict_iso8601 ''sky130'' x"
    by (simp add: bad_commit_feed_def)
  have b3: "\<not> draft (hd bad_commit_feed) \<and> tag_has_family ''sky130'' (tag_name (hd bad_commit_feed))"
    by (simp add: bad_commit_feed_def release_of_def tag_has_family_def)
  have b4: "strict_iso8601 (published_at (hd bad_commit_feed)) = Inr (2022, 5, 2, 8, 30, 0)"
    by code_simp
  have b5: "commit_rx_search (body (hd bad_commit_feed)) = Some (text_of ''2022-13-45T12:00:00Z'')"
    by code_simp
  have b6: "strict_iso8601 (text_of ''2022-13-45T12:00:00Z'') = Inl format_error"
    by code_simp
  from commit_date_from_body[OF bp bl, of strict_iso8601 "''sky130''", THEN conjunct2, THEN conjunct2,
      rule_format, of "hd bad_commit_feed" "(2022, 5, 2, 8, 30, 0)" "text_of ''2022-13-45T12:00:00Z''"
        format_error]
    b1 b2 b3 b4 b5 b6
  have b: "get_available_versions strict_iso8601 (feed_source bad_commit_feed) ''sky130''
       = Some (Inl format_error)"
    by blast
  from p l w s g c n family_feed_result e a b show ?thesis by blast
qed

end
